theory Spec2Isabelle
  imports
    Complex_Main
    "HOL-Library.Sublist"
    "HOL-Library.Char_ord"
    "HOL-Library.List_Lexorder"
    "HOL-Library.Product_Lexorder"
begin

section \<open>Swimmer Tracker: data model\<close>

text \<open>
  The embedding follows \<^verbatim>\<open>src/App.tsx\<close> and \<^verbatim>\<open>supabase/schema.sql\<close>.
  JavaScript strings are modelled as \<^typ>\<open>string\<close>, an optional field (\<^verbatim>\<open>id?: string\<close>) as an
  \<^typ>\<open>'a option\<close> with \<open>None\<close> for \<^verbatim>\<open>undefined\<close>/\<^verbatim>\<open>null\<close>.
\<close>

subsection \<open>JavaScript numbers\<close>

text \<open>
  A JavaScript number is an IEEE double. The functions modelled here only compare numbers
  and select one of their arguments (\<^verbatim>\<open>Math.max\<close>, \<^verbatim>\<open>Math.min\<close>, \<^verbatim>\<open>||\<close>), so the finite
  values are taken as rationals (every double is one), with \<open>NaN\<close> and the two infinities
  beside them. \<open>Fin 0\<close> stands for both zeros: both are falsy and \<^verbatim>\<open>Math.max(0, -0)\<close> is \<open>0\<close>.
\<close>

datatype jsnum = NaN | NegInf | Fin rat | PosInf

text \<open>\<^verbatim>\<open>a <= b\<close> on numbers: false as soon as one side is \<open>NaN\<close>.\<close>

fun js_le :: "jsnum \<Rightarrow> jsnum \<Rightarrow> bool" where
  "js_le NaN b = False"
| "js_le a NaN = False"
| "js_le NegInf b = True"
| "js_le a PosInf = True"
| "js_le (Fin a) (Fin b) = (a \<le> b)"
| "js_le PosInf b = False"
| "js_le a NegInf = False"

text \<open>\<^verbatim>\<open>Math.max(a, b)\<close> and \<^verbatim>\<open>Math.min(a, b)\<close>: \<open>NaN\<close> if either argument is \<open>NaN\<close>.\<close>

definition Math_max :: "jsnum \<Rightarrow> jsnum \<Rightarrow> jsnum" where
  "Math_max a b = (if a = NaN \<or> b = NaN then NaN else if js_le a b then b else a)"

definition Math_min :: "jsnum \<Rightarrow> jsnum \<Rightarrow> jsnum" where
  "Math_min a b = (if a = NaN \<or> b = NaN then NaN else if js_le a b then a else b)"

text \<open>Truthiness of a number: \<open>0\<close> and \<open>NaN\<close> are falsy.\<close>

definition truthy :: "jsnum \<Rightarrow> bool" where
  "truthy n = (n \<noteq> NaN \<and> n \<noteq> Fin 0)"

text \<open>\<^verbatim>\<open>a || d\<close> on numbers.\<close>

definition num_or :: "jsnum \<Rightarrow> jsnum \<Rightarrow> jsnum" where
  "num_or a d = (if truthy a then a else d)"

subsection \<open>Types of \<^verbatim>\<open>App.tsx\<close>\<close>

text \<open>
  The fields carry a prefix (\<open>w_\<close>, \<open>c_\<close>, \<open>pb_\<close>) because the three types share field
  names and \<open>id\<close> is a constant of HOL. The stroke is a string at run time (the type is a
  union of string literals that imported or fetched data need not respect).
\<close>

record Workout =
  w_id :: "string option"
  w_user_id :: "string option"
  w_date :: string
  w_distance_m :: jsnum
  w_duration_min :: jsnum
  w_stroke :: string
  w_rpe :: "jsnum option"
  w_notes :: "string option"

record Competition =
  c_id :: "string option"
  c_user_id :: "string option"
  c_date :: string
  c_meet :: string
  c_distance_m :: jsnum
  c_stroke :: string
  c_time_sec :: jsnum
  c_location :: "string option"
  c_notes :: "string option"

record PB =
  pb_user_id :: string
  pb_stroke :: string
  pb_distance_m :: jsnum
  pb_time_sec :: jsnum
  pb_date :: string
  pb_meet :: string

text \<open>
  The component state of \<^verbatim>\<open>App\<close> (the \<^verbatim>\<open>useState\<close> cells the handlers read and write).
  \<open>session\<close> is \<^verbatim>\<open>session?.user\<close> reduced to the user's id: \<open>None\<close> when nobody is signed in.
\<close>

record app_state =
  session :: "string option"
  loading :: bool
  rows :: "Workout list"
  comps :: "Competition list"
  pbs :: "PB list"
  draft :: Workout
  cdraft :: Competition
  editingId :: "string option"
  ceditingId :: "string option"

text \<open>
  What a Supabase query resolves to: \<^verbatim>\<open>{ data, error }\<close>, the error reduced to its message.
\<close>

record 'a response =
  data :: "'a option"
  error :: "string option"

section \<open>Strings and arrays of JavaScript\<close>

text \<open>
  Strings are ASCII here: \<^verbatim>\<open>toLowerCase\<close> maps \<open>A\<close>..\<open>Z\<close> to \<open>a\<close>..\<open>z\<close> and leaves every
  other character, \<^verbatim>\<open>trim\<close> removes the ASCII white space at both ends.
\<close>

definition lower_char :: "char \<Rightarrow> char" where
  "lower_char c =
     (case map_of (zip ''ABCDEFGHIJKLMNOPQRSTUVWXYZ'' ''abcdefghijklmnopqrstuvwxyz'') c of
        None \<Rightarrow> c
      | Some l \<Rightarrow> l)"

definition toLowerCase :: "string \<Rightarrow> string" where
  "toLowerCase s = map lower_char s"

definition is_space :: "char \<Rightarrow> bool" where
  "is_space c = (c \<in> set [CHR 0x09, CHR 0x0A, CHR 0x0B, CHR 0x0C, CHR 0x0D, CHR '' ''])"

definition trim :: "string \<Rightarrow> string" where
  "trim s = rev (dropWhile is_space (rev (dropWhile is_space s)))"

text \<open>\<^verbatim>\<open>s.includes(q)\<close>: \<open>q\<close> occurs in \<open>s\<close> as a contiguous substring.\<close>

definition includes_str :: "string \<Rightarrow> string \<Rightarrow> bool" where
  "includes_str s q = sublist q s"

text \<open>\<^verbatim>\<open>xs.slice(a, b)\<close> for indices \<open>0 \<le> a\<close>, \<open>0 \<le> b\<close>: the elements at \<open>a, ..., b - 1\<close> that exist.\<close>

definition slice :: "'a list \<Rightarrow> nat \<Rightarrow> nat \<Rightarrow> 'a list" where
  "slice xs a b = take (b - a) (drop a xs)"

text \<open>\<^verbatim>\<open>s.split(d)\<close> for a separator of one character.\<close>

function split_on :: "char \<Rightarrow> string \<Rightarrow> string list" where
  "split_on d s =
     (case dropWhile (\<lambda>c. c \<noteq> d) s of
        [] \<Rightarrow> [takeWhile (\<lambda>c. c \<noteq> d) s]
      | _ # r \<Rightarrow> takeWhile (\<lambda>c. c \<noteq> d) s # split_on d r)"
  by pat_completeness auto
termination
proof (relation "measure (\<lambda>(d, s). length s)")
  show "wf (measure (\<lambda>(d, s). length s))"
    by simp
next
  fix d :: char and s :: string and x r
  assume "dropWhile (\<lambda>c. c \<noteq> d) s = x # r"
  then have "length r < length (dropWhile (\<lambda>c. c \<noteq> d) s)"
    by simp
  also have "\<dots> \<le> length s"
    by (rule length_dropWhile_le)
  finally show "((d, r), (d, s)) \<in> measure (\<lambda>(d, s). length s)"
    by simp
qed

text \<open>
  \<^verbatim>\<open>text.split(/\r?\n/)\<close>: the text is cut at every line feed, and a carriage return
  right before the line feed belongs to the separator.
\<close>

definition strip_cr :: "string \<Rightarrow> string" where
  "strip_cr l = (if l \<noteq> [] \<and> last l = CHR 0x0D then butlast l else l)"

definition split_lines :: "string \<Rightarrow> string list" where
  "split_lines t = (let ps = split_on (CHR 0x0A) t in map strip_cr (butlast ps) @ [last ps])"

text \<open>\<^verbatim>\<open>header.indexOf(name)\<close>, with \<open>None\<close> for \<open>-1\<close>.\<close>

fun indexOf :: "'a list \<Rightarrow> 'a \<Rightarrow> nat option" where
  "indexOf [] a = None"
| "indexOf (x # xs) a = (if x = a then Some 0 else map_option Suc (indexOf xs a))"

text \<open>\<^verbatim>\<open>cols[i]\<close>: \<^verbatim>\<open>undefined\<close> at \<open>-1\<close> and beyond the end.\<close>

definition at_index :: "'a list \<Rightarrow> nat option \<Rightarrow> 'a option" where
  "at_index xs i =
     (case i of None \<Rightarrow> None | Some k \<Rightarrow> if k < length xs then Some (xs ! k) else None)"

text \<open>Truthiness of an optional string: \<^verbatim>\<open>undefined\<close>, \<^verbatim>\<open>null\<close> and \<^verbatim>\<open>""\<close> are falsy.\<close>

definition truthy_str :: "string option \<Rightarrow> bool" where
  "truthy_str v = (case v of None \<Rightarrow> False | Some x \<Rightarrow> x \<noteq> [])"

section \<open>Filtered and paginated rows\<close>

text \<open>
  The \<^verbatim>\<open>filtered\<close> memo of \<^verbatim>\<open>App\<close>, as a function of \<^verbatim>\<open>rows\<close>, \<^verbatim>\<open>query\<close> and \<^verbatim>\<open>page\<close>.
  \<open>toStr\<close> is JavaScript's \<^verbatim>\<open>String(n)\<close> on numbers, taken as a parameter. The page is a
  natural number: it starts at \<open>0\<close> and the buttons set it to \<^verbatim>\<open>Math.max(0, p - 1)\<close> or \<open>p + 1\<close>.
\<close>

definition row_matches :: "(jsnum \<Rightarrow> string) \<Rightarrow> string \<Rightarrow> Workout \<Rightarrow> bool" where
  "row_matches toStr q r =
     (includes_str (w_date r) q \<or>
      includes_str (toStr (w_distance_m r)) q \<or>
      includes_str (toStr (w_duration_min r)) q \<or>
      includes_str (toLowerCase (w_stroke r)) q \<or>
      includes_str (toLowerCase (case w_notes r of None \<Rightarrow> [] | Some n \<Rightarrow> n)) q)"

definition filtered :: "(jsnum \<Rightarrow> string) \<Rightarrow> Workout list \<Rightarrow> string \<Rightarrow> nat \<Rightarrow> Workout list" where
  "filtered toStr rs query page =
     (let q = toLowerCase (trim query);
          pageSize = 50;
          base = (if q = [] then rs else filter (row_matches toStr q) rs);
          start = page * pageSize
      in slice base start (start + pageSize))"

section \<open>Optimistic create, update and delete\<close>

text \<open>
  The two array updates every handler uses:
  \<^verbatim>\<open>r.map((x) => (x.id === id ? y : x))\<close> and \<^verbatim>\<open>r.filter((x) => x.id !== id)\<close>.
\<close>

definition map_by_id :: "('a \<Rightarrow> string option) \<Rightarrow> string \<Rightarrow> 'a \<Rightarrow> 'a list \<Rightarrow> 'a list" where
  "map_by_id ident i y xs = map (\<lambda>x. if ident x = Some i then y else x) xs"

definition remove_by_id :: "('a \<Rightarrow> string option) \<Rightarrow> string \<Rightarrow> 'a list \<Rightarrow> 'a list" where
  "remove_by_id ident i xs = filter (\<lambda>x. ident x \<noteq> Some i) xs"

text \<open>
  The same \<^verbatim>\<open>map\<close> when the replacement may be \<^verbatim>\<open>undefined\<close> (\<^verbatim>\<open>rows[-1]\<close>) or \<^verbatim>\<open>null\<close>: if an
  element is replaced by it, the array no longer is a list of records, which is the
  result \<open>None\<close>.
\<close>

definition map_by_id_opt ::
  "('a \<Rightarrow> string option) \<Rightarrow> string \<Rightarrow> 'a option \<Rightarrow> 'a list \<Rightarrow> 'a list option" where
  "map_by_id_opt ident i y xs =
     (case y of
        Some v \<Rightarrow> Some (map_by_id ident i v xs)
      | None \<Rightarrow> if list_ex (\<lambda>x. ident x = Some i) xs then None else Some xs)"

text \<open>The requests sent to the remote store, and what a handler does beside changing state.\<close>

datatype request =
    UpdateWorkout Workout string
  | InsertWorkout Workout
  | DeleteWorkout string
  | UpdateCompetition Competition string
  | InsertCompetition Competition
  | DeleteCompetition string

datatype effect = Alert string | RefreshPBsAfter nat

text \<open>
  What the continuation of a save holds while the request is in flight: the id being edited
  and the record captured before the change (\<^verbatim>\<open>prev\<close>), or the id of the optimistic record.
\<close>

datatype 'a pending = PendingUpdate string "'a option" | PendingInsert string

definition emptyWorkout :: "string \<Rightarrow> Workout" where
  "emptyWorkout today =
     \<lparr>w_id = None, w_user_id = None, w_date = today, w_distance_m = Fin 0,
      w_duration_min = Fin 0, w_stroke = ''Free'', w_rpe = Some (Fin 5), w_notes = Some []\<rparr>"

definition emptyComp :: "string \<Rightarrow> Competition" where
  "emptyComp today =
     \<lparr>c_id = None, c_user_id = None, c_date = today, c_meet = [], c_distance_m = Fin 50,
      c_stroke = ''Free'', c_time_sec = Fin 40, c_location = Some [], c_notes = Some []\<rparr>"

subsection \<open>Workouts\<close>

text \<open>The record \<^verbatim>\<open>clean\<close> of \<^verbatim>\<open>saveWorkout\<close> (\<^verbatim>\<open>Number\<close> of a number is the number).\<close>

definition clean_workout :: "Workout \<Rightarrow> Workout" where
  "clean_workout d =
     d\<lparr>w_distance_m := Math_max (Fin 0) (num_or (w_distance_m d) (Fin 0)),
       w_duration_min := Math_max (Fin 0) (num_or (w_duration_min d) (Fin 0)),
       w_rpe := (case w_rpe d of
                   None \<Rightarrow> None
                 | Some r \<Rightarrow>
                     if truthy r then Some (Math_min (Fin 10) (Math_max (Fin 1) r)) else None),
       w_stroke := w_stroke d\<rparr>"

text \<open>
  \<^verbatim>\<open>saveWorkout\<close> up to its \<^verbatim>\<open>await\<close>. \<open>tmp\<close> is the value of
  \<^verbatim>\<open>crypto.randomUUID?.() || String(Math.random())\<close>. The result is the alert of the
  early return, or the state after the optimistic change with the request sent and what the
  continuation holds.
\<close>

definition saveWorkout_start ::
  "app_state \<Rightarrow> string \<Rightarrow> string + (app_state \<times> request \<times> Workout pending)" where
  "saveWorkout_start s tmp =
     (let clean = clean_workout (draft s) in
      case session s of
        None \<Rightarrow> Inl ''Please sign in first.''
      | Some uid \<Rightarrow>
          case (if truthy_str (editingId s) then editingId s else None) of
            Some e \<Rightarrow>
            (let prev = find (\<lambda>r. w_id r = Some e) (rows s);
                 updated = clean\<lparr>w_id := Some e\<rparr>
             in Inr (s\<lparr>rows := map_by_id w_id e updated (rows s)\<rparr>,
                     UpdateWorkout updated e, PendingUpdate e prev))
          | None \<Rightarrow>
            (let optimistic = clean\<lparr>w_id := Some tmp\<rparr>
             in Inr (s\<lparr>rows := optimistic # rows s\<rparr>,
                     InsertWorkout (clean\<lparr>w_user_id := Some uid\<rparr>), PendingInsert tmp)))"

text \<open>
  \<^verbatim>\<open>saveWorkout\<close> from its \<^verbatim>\<open>await\<close> on, in the state \<open>s\<close> of that moment, with the response
  of the store. \<open>None\<close>: the array was given an entry that is no record.
\<close>

definition saveWorkout_finish ::
  "string \<Rightarrow> app_state \<Rightarrow> Workout pending \<Rightarrow> Workout response \<Rightarrow> (app_state \<times> effect list) option" where
  "saveWorkout_finish today s p r =
     (let reset = (\<lambda>t. t\<lparr>editingId := None, draft := emptyWorkout today\<rparr>) in
      case p of
        PendingUpdate e prev \<Rightarrow>
          (case error r of
             Some m \<Rightarrow>
               map_option (\<lambda>rs. (reset (s\<lparr>rows := rs\<rparr>), [Alert m]))
                 (map_by_id_opt w_id e prev (rows s))
           | None \<Rightarrow> Some (reset s, []))
      | PendingInsert oid \<Rightarrow>
          (case error r of
             Some m \<Rightarrow> Some (reset (s\<lparr>rows := remove_by_id w_id oid (rows s)\<rparr>), [Alert m])
           | None \<Rightarrow>
               map_option (\<lambda>rs. (reset (s\<lparr>rows := rs\<rparr>), []))
                 (map_by_id_opt w_id oid (data r) (rows s))))"

text \<open>
  \<^verbatim>\<open>deleteWorkout\<close> up to its \<^verbatim>\<open>await\<close>; \<open>confirmed\<close> is the answer of \<^verbatim>\<open>confirm\<close>. \<open>None\<close> is
  the early return. The continuation holds \<^verbatim>\<open>prev = rows\<close>.
\<close>

definition deleteWorkout_start ::
  "app_state \<Rightarrow> bool \<Rightarrow> string \<Rightarrow> (app_state \<times> request \<times> Workout list) option" where
  "deleteWorkout_start s confirmed i =
     (if \<not> confirmed then None
      else Some (s\<lparr>rows := remove_by_id w_id i (rows s)\<rparr>, DeleteWorkout i, rows s))"

definition deleteWorkout_finish ::
  "app_state \<Rightarrow> Workout list \<Rightarrow> string option \<Rightarrow> app_state \<times> effect list" where
  "deleteWorkout_finish s prev err =
     (case err of Some m \<Rightarrow> (s\<lparr>rows := prev\<rparr>, [Alert m]) | None \<Rightarrow> (s, []))"

subsection \<open>Competitions\<close>

definition clean_competition :: "Competition \<Rightarrow> Competition" where
  "clean_competition d =
     d\<lparr>c_distance_m := Math_max (Fin 25) (num_or (c_distance_m d) (Fin 50)),
       c_time_sec := Math_max (Fin 1) (num_or (c_time_sec d) (Fin 40))\<rparr>"

definition saveCompetition_start ::
  "app_state \<Rightarrow> string \<Rightarrow> string + (app_state \<times> request \<times> Competition pending)" where
  "saveCompetition_start s tmp =
     (let clean = clean_competition (cdraft s) in
      case session s of
        None \<Rightarrow> Inl ''Please sign in first.''
      | Some uid \<Rightarrow>
          case (if truthy_str (ceditingId s) then ceditingId s else None) of
            Some e \<Rightarrow>
            (let prev = find (\<lambda>r. c_id r = Some e) (comps s);
                 updated = clean\<lparr>c_id := Some e\<rparr>
             in Inr (s\<lparr>comps := map_by_id c_id e updated (comps s)\<rparr>,
                     UpdateCompetition updated e, PendingUpdate e prev))
          | None \<Rightarrow>
            (let optimistic = clean\<lparr>c_id := Some tmp\<rparr>
             in Inr (s\<lparr>comps := optimistic # comps s\<rparr>,
                     InsertCompetition (clean\<lparr>c_user_id := Some uid\<rparr>), PendingInsert tmp)))"

definition saveCompetition_finish ::
  "string \<Rightarrow> app_state \<Rightarrow> Competition pending \<Rightarrow> Competition response \<Rightarrow>
     (app_state \<times> effect list) option" where
  "saveCompetition_finish today s p r =
     (let reset = (\<lambda>t. t\<lparr>ceditingId := None, cdraft := emptyComp today\<rparr>) in
      case p of
        PendingUpdate e prev \<Rightarrow>
          (case error r of
             Some m \<Rightarrow>
               map_option (\<lambda>rs. (reset (s\<lparr>comps := rs\<rparr>), [Alert m, RefreshPBsAfter 250]))
                 (map_by_id_opt c_id e prev (comps s))
           | None \<Rightarrow> Some (reset s, [RefreshPBsAfter 250]))
      | PendingInsert oid \<Rightarrow>
          (case error r of
             Some m \<Rightarrow>
               Some (reset (s\<lparr>comps := remove_by_id c_id oid (comps s)\<rparr>),
                     [Alert m, RefreshPBsAfter 250])
           | None \<Rightarrow>
               map_option (\<lambda>rs. (reset (s\<lparr>comps := rs\<rparr>), [RefreshPBsAfter 250]))
                 (map_by_id_opt c_id oid (data r) (comps s))))"

definition deleteCompetition_start ::
  "app_state \<Rightarrow> bool \<Rightarrow> string \<Rightarrow> (app_state \<times> request \<times> Competition list) option" where
  "deleteCompetition_start s confirmed i =
     (if \<not> confirmed then None
      else Some (s\<lparr>comps := remove_by_id c_id i (comps s)\<rparr>, DeleteCompetition i, comps s))"

definition deleteCompetition_finish ::
  "app_state \<Rightarrow> Competition list \<Rightarrow> string option \<Rightarrow> app_state \<times> effect list" where
  "deleteCompetition_finish s prev err =
     (case err of
        Some m \<Rightarrow> (s\<lparr>comps := prev\<rparr>, [Alert m, RefreshPBsAfter 250])
      | None \<Rightarrow> (s, [RefreshPBsAfter 250]))"

section \<open>The screens and their controls\<close>





section \<open>Personal bests refresh\<close>

text \<open>
  \<^verbatim>\<open>refreshPBs\<close>, resumed with the response of
  \<^verbatim>\<open>supabase.from("personal_bests").select("*")\<close>:
  \<^verbatim>\<open>if (!error) setPBs((data ?? []) as any)\<close>.
\<close>

definition refreshPBs :: "app_state \<Rightarrow> PB list response \<Rightarrow> app_state" where
  "refreshPBs s r =
     (case error r of
        None \<Rightarrow> s\<lparr>pbs := (case data r of None \<Rightarrow> [] | Some p \<Rightarrow> p)\<rparr>
      | Some e \<Rightarrow> s)"

section \<open>Loading, CSV import\<close>

text \<open>
  The remote store, as far as \<^verbatim>\<open>fetchAll\<close> and the import use it: a state \<open>'db\<close>, the bulk
  insert into \<^verbatim>\<open>workouts\<close> (an error message, or the state with the batch committed) and the
  three queries of \<^verbatim>\<open>fetchAll\<close> (\<^verbatim>\<open>select("*").order("date", { ascending: false }).limit(500)\<close>
  on \<^verbatim>\<open>workouts\<close> and \<^verbatim>\<open>competitions\<close>, \<^verbatim>\<open>select("*")\<close> on \<^verbatim>\<open>personal_bests\<close>).
\<close>

record import_row =
  i_date :: string
  i_distance_m :: jsnum
  i_duration_min :: jsnum
  i_stroke :: string
  i_rpe :: "jsnum option"
  i_notes :: "string option"
  i_user_id :: string

record 'db remote =
  insert_workouts :: "'db \<Rightarrow> import_row list \<Rightarrow> string + 'db"
  select_workouts :: "'db \<Rightarrow> Workout list response"
  select_competitions :: "'db \<Rightarrow> Competition list response"
  select_personal_bests :: "'db \<Rightarrow> PB list response"

text \<open>
  \<^verbatim>\<open>fetchAll\<close>: the first error among the three responses is thrown and alerted
  (\<^verbatim>\<open>e.message || "Error loading data"\<close>) and nothing is set; \<^verbatim>\<open>loading\<close> ends \<open>False\<close>.
\<close>

definition fetchAll :: "'db remote \<Rightarrow> 'db \<Rightarrow> app_state \<Rightarrow> app_state \<times> effect list" where
  "fetchAll rem db s =
     (let w = select_workouts rem db;
          c = select_competitions rem db;
          p = select_personal_bests rem db;
          failed = (\<lambda>m. (s\<lparr>loading := False\<rparr>,
                          [Alert (if m = [] then ''Error loading data'' else m)]))
      in case error w of
           Some m \<Rightarrow> failed m
         | None \<Rightarrow>
             (case error c of
                Some m \<Rightarrow> failed m
              | None \<Rightarrow>
                  (case error p of
                     Some m \<Rightarrow> failed m
                   | None \<Rightarrow>
                       (s\<lparr>rows := (case data w of None \<Rightarrow> [] | Some x \<Rightarrow> x),
                          comps := (case data c of None \<Rightarrow> [] | Some x \<Rightarrow> x),
                          pbs := (case data p of None \<Rightarrow> [] | Some x \<Rightarrow> x),
                          loading := False\<rparr>, []))))"

text \<open>
  A parsed CSV line. \<^verbatim>\<open>distance_m\<close> and \<^verbatim>\<open>duration_min\<close> are a cell (a string) or the
  number \<open>0\<close>; \<^verbatim>\<open>rpe\<close> is a cell or \<^verbatim>\<open>null\<close>; \<^verbatim>\<open>date\<close> is \<^verbatim>\<open>undefined\<close> when the line has no
  such cell.
\<close>

datatype strnum = Str string | Num jsnum

record csv_row =
  r_date :: "string option"
  r_distance_m :: strnum
  r_duration_min :: strnum
  r_stroke :: string
  r_rpe :: "string option"
  r_notes :: string

text \<open>\<^verbatim>\<open>a || b\<close> on cells, and \<^verbatim>\<open>a || b || 0\<close>.\<close>

definition or_str :: "string option \<Rightarrow> string option \<Rightarrow> string option" where
  "or_str a b = (if truthy_str a then a else b)"

definition or_zero :: "string option \<Rightarrow> strnum" where
  "or_zero a = (case a of None \<Rightarrow> Num (Fin 0) | Some x \<Rightarrow> if x \<noteq> [] then Str x else Num (Fin 0))"

definition parseCSV :: "string \<Rightarrow> csv_row list" where
  "parseCSV t =
     (case filter (\<lambda>l. l \<noteq> []) (split_lines t) of
        [] \<Rightarrow> []
      | h # ls \<Rightarrow>
          (let header = map (\<lambda>h. toLowerCase (trim h)) (split_on (CHR '','') h);
               idx = indexOf header
           in map (\<lambda>l.
                 let cols = split_on (CHR '','') l in
                 \<lparr>r_date = map_option trim (at_index cols (idx ''date'')),
                  r_distance_m =
                    or_zero (or_str (at_index cols (idx ''distance_m''))
                                    (at_index cols (idx ''distance''))),
                  r_duration_min =
                    or_zero (or_str (at_index cols (idx ''duration_min''))
                                    (at_index cols (idx ''duration''))),
                  r_stroke =
                    (case map_option trim (at_index cols (idx ''stroke'')) of
                       None \<Rightarrow> ''Free''
                     | Some x \<Rightarrow> if x \<noteq> [] then x else ''Free''),
                  r_rpe = or_str (at_index cols (idx ''rpe'')) None,
                  r_notes =
                    (case map_option trim (at_index cols (idx ''notes'')) of
                       None \<Rightarrow> []
                     | Some x \<Rightarrow> x)\<rparr>) ls))"

text \<open>
  The \<^verbatim>\<open>onload\<close> callback of \<^verbatim>\<open>CSVImport\<close> on the text of the file: the alert, or the
  result of the \<^verbatim>\<open>onRows\<close> it was given.
\<close>

definition CSVImport_onload :: "(csv_row list \<Rightarrow> 'r) \<Rightarrow> string \<Rightarrow> string + 'r" where
  "CSVImport_onload onRows t =
     (let d = parseCSV t in
      if d = [] then Inl ''No rows found. Ensure your CSV has a header row.''
      else Inr (onRows d))"

text \<open>
  The map of \<^verbatim>\<open>onRows\<close> that builds \<^verbatim>\<open>cleaned\<close>. \<open>num\<close> is \<^verbatim>\<open>Number\<close> on strings and \<open>today\<close>
  the value of \<^verbatim>\<open>new Date().toISOString().slice(0, 10)\<close>, both parameters.
\<close>

definition to_number :: "(string \<Rightarrow> jsnum) \<Rightarrow> strnum \<Rightarrow> jsnum" where
  "to_number num v = (case v of Str x \<Rightarrow> num x | Num n \<Rightarrow> n)"

definition clean_import :: "(string \<Rightarrow> jsnum) \<Rightarrow> string \<Rightarrow> string \<Rightarrow> csv_row \<Rightarrow> import_row" where
  "clean_import num today uid r =
     \<lparr>i_date = (case r_date r of None \<Rightarrow> today | Some d \<Rightarrow> d),
      i_distance_m = Math_max (Fin 0) (num_or (to_number num (r_distance_m r)) (Fin 0)),
      i_duration_min = Math_max (Fin 0) (num_or (to_number num (r_duration_min r)) (Fin 0)),
      i_stroke =
        (if r_stroke r \<in> set [''Free'', ''Back'', ''Breast'', ''Fly'', ''IM'', ''Drill'']
         then r_stroke r else ''Free''),
      i_rpe =
        (case r_rpe r of
           None \<Rightarrow> None
         | Some x \<Rightarrow>
             if x \<noteq> [] then Some (Math_min (Fin 10) (Math_max (Fin 1) (num x))) else None),
      i_notes = Some (r_notes r),
      i_user_id = uid\<rparr>"

text \<open>
  The loop \<^verbatim>\<open>for (let i = 0; i < cleaned.length; i += 500)\<close> from index \<open>i\<close> on: the store's
  state at the end, the batches sent, and the message alerted at the \<^verbatim>\<open>break\<close>.
\<close>

function onRows_loop ::
  "('db \<Rightarrow> import_row list \<Rightarrow> string + 'db) \<Rightarrow> import_row list \<Rightarrow> nat \<Rightarrow> 'db \<Rightarrow>
     'db \<times> import_row list list \<times> string option" where
  "onRows_loop ins cleaned i db =
     (if i < length cleaned then
        (let b = slice cleaned i (i + 500) in
         case ins db b of
           Inl m \<Rightarrow> (db, [b], Some m)
         | Inr db' \<Rightarrow>
             (case onRows_loop ins cleaned (i + 500) db' of
                (d, sent, a) \<Rightarrow> (d, b # sent, a)))
      else (db, [], None))"
  by pat_completeness auto
termination
  by (relation "measure (\<lambda>(ins, cleaned, i, db). length cleaned - i)") auto

text \<open>
  \<^verbatim>\<open>onRows\<close>: the store's state, the state of the component, the batches sent and the
  effects, in order.
\<close>

definition onRows ::
  "'db remote \<Rightarrow> (string \<Rightarrow> jsnum) \<Rightarrow> string \<Rightarrow> 'db \<Rightarrow> app_state \<Rightarrow> csv_row list \<Rightarrow>
     'db \<times> app_state \<times> import_row list list \<times> effect list" where
  "onRows rem num today db s raw =
     (case session s of
        None \<Rightarrow> (db, s, [], [Alert ''Please sign in first.''])
      | Some uid \<Rightarrow>
          (let cleaned = map (clean_import num today uid) raw in
           case onRows_loop (insert_workouts rem) cleaned 0 db of
             (db', sent, a) \<Rightarrow>
               (case fetchAll rem db' s of
                  (s', fx) \<Rightarrow>
                    (db', s', sent, (case a of None \<Rightarrow> [] | Some m \<Rightarrow> [Alert m]) @ fx))))"

text \<open>
  \<^verbatim>\<open><CSVImport onRows={async (rows) => ...} />\<close>: the import of a file's text, the alert
  of \<^verbatim>\<open>CSVImport\<close> among the effects.
\<close>

definition import_csv ::
  "'db remote \<Rightarrow> (string \<Rightarrow> jsnum) \<Rightarrow> string \<Rightarrow> 'db \<Rightarrow> app_state \<Rightarrow> string \<Rightarrow>
     'db \<times> app_state \<times> import_row list list \<times> effect list" where
  "import_csv rem num today db s t =
     (case CSVImport_onload (onRows rem num today db s) t of
        Inl m \<Rightarrow> (db, s, [], [Alert m])
      | Inr res \<Rightarrow> res)"

section \<open>The view \<^verbatim>\<open>personal_bests\<close> of \<^verbatim>\<open>schema.sql\<close>\<close>

text \<open>
  A row of the table \<^verbatim>\<open>competitions\<close> (every column the view reads is \<^verbatim>\<open>not null\<close>) and a
  row of the view. \<^verbatim>\<open>text\<close>, \<^verbatim>\<open>uuid\<close> and \<^verbatim>\<open>date\<close> values are strings under the lexicographic
  order (the order of dates written \<^verbatim>\<open>YYYY-MM-DD\<close>), \<^verbatim>\<open>numeric\<close> values are rationals.
\<close>

record competitions_row =
  cr_id :: string
  cr_user_id :: string
  cr_date :: string
  cr_meet :: string
  cr_distance_m :: int
  cr_stroke :: string
  cr_time_sec :: rat
  cr_location :: "string option"
  cr_notes :: "string option"

record personal_bests_row =
  v_user_id :: string
  v_stroke :: string
  v_distance_m :: int
  v_time_sec :: rat
  v_date :: string
  v_meet :: string

text \<open>
  \<^verbatim>\<open>select distinct on (k)\<close> over ordered rows keeps the first row of each run of rows that
  agree on \<open>k\<close>.
\<close>

fun distinct_on :: "('a \<Rightarrow> 'k) \<Rightarrow> 'a list \<Rightarrow> 'a list" where
  "distinct_on k [] = []"
| "distinct_on k [x] = [x]"
| "distinct_on k (x # y # xs) =
     (if k x = k y then distinct_on k (x # xs) else x # distinct_on k (y # xs))"

text \<open>\<^verbatim>\<open>distinct on (user_id, stroke, distance_m)\<close>\<close>

definition pb_distinct_key :: "competitions_row \<Rightarrow> string \<times> string \<times> int" where
  "pb_distinct_key r = (cr_user_id r, cr_stroke r, cr_distance_m r)"

text \<open>\<^verbatim>\<open>order by user_id, stroke, distance_m, time_sec asc, date asc\<close>\<close>

definition pb_order_key :: "competitions_row \<Rightarrow> string \<times> string \<times> int \<times> rat \<times> string" where
  "pb_order_key r = (cr_user_id r, cr_stroke r, cr_distance_m r, cr_time_sec r, cr_date r)"

text \<open>\<^verbatim>\<open>select user_id, stroke, distance_m, time_sec, date, meet\<close>\<close>

definition pb_select :: "competitions_row \<Rightarrow> personal_bests_row" where
  "pb_select r =
     \<lparr>v_user_id = cr_user_id r, v_stroke = cr_stroke r, v_distance_m = cr_distance_m r,
      v_time_sec = cr_time_sec r, v_date = cr_date r, v_meet = cr_meet r\<rparr>"

definition personal_bests :: "competitions_row list \<Rightarrow> personal_bests_row list" where
  "personal_bests t = map pb_select (distinct_on pb_distinct_key (sort_key pb_order_key t))"

section \<open>The specification's notions\<close>

text \<open>The key of a row of the view, to compare with \<open>pb_distinct_key\<close>.\<close>

definition v_key :: "personal_bests_row \<Rightarrow> string \<times> string \<times> int" where
  "v_key v = (v_user_id v, v_stroke v, v_distance_m v)"

text \<open>The results of a table that share the key of \<open>r\<close>.\<close>

definition same_key :: "competitions_row list \<Rightarrow> competitions_row \<Rightarrow> competitions_row set" where
  "same_key t r = {x \<in> set t. pb_distinct_key x = pb_distinct_key r}"

text \<open>The records a query answered with: \<^verbatim>\<open>data ?? []\<close>.\<close>

definition answer_of :: "'a list response \<Rightarrow> 'a list" where
  "answer_of r = (case data r of None \<Rightarrow> [] | Some x \<Rightarrow> x)"

text \<open>The three queries of a load all came back without error.\<close>

definition load_ok :: "'db remote \<Rightarrow> 'db \<Rightarrow> bool" where
  "load_ok rem db =
     (error (select_workouts rem db) = None \<and> error (select_competitions rem db) = None \<and>
      error (select_personal_bests rem db) = None)"

text \<open>A list of sessions sorted by date, latest first.\<close>

definition sorted_by_date_desc :: "Workout list \<Rightarrow> bool" where
  "sorted_by_date_desc rs = sorted_wrt (\<lambda>a b. w_date b \<le> w_date a) rs"

text \<open>The ids present in a collection are pairwise distinct.\<close>

definition ids_distinct :: "('a \<Rightarrow> string option) \<Rightarrow> 'a list \<Rightarrow> bool" where
  "ids_distinct ident xs = distinct (List.map_filter ident xs)"

text \<open>
  The view as the specification words it: the records of which one of the five fields
  contains the query, both taken without regard to case, cut to the page.
\<close>

definition ci_contains :: "string \<Rightarrow> string \<Rightarrow> bool" where
  "ci_contains s q = includes_str (toLowerCase s) (toLowerCase q)"

definition matches_query :: "(jsnum \<Rightarrow> string) \<Rightarrow> string \<Rightarrow> Workout \<Rightarrow> bool" where
  "matches_query toStr q r =
     (ci_contains (w_date r) q \<or>
      ci_contains (toStr (w_distance_m r)) q \<or>
      ci_contains (toStr (w_duration_min r)) q \<or>
      ci_contains (w_stroke r) q \<or>
      ci_contains (case w_notes r of None \<Rightarrow> [] | Some n \<Rightarrow> n) q)"

definition view_spec :: "(jsnum \<Rightarrow> string) \<Rightarrow> Workout list \<Rightarrow> string \<Rightarrow> nat \<Rightarrow> Workout list" where
  "view_spec toStr rs q page =
     take 50 (drop (page * 50) (if q = [] then rs else filter (matches_query toStr q) rs))"

text \<open>
  The validation table: a number clamped from below with a default for what is not a
  number, and a number clamped into a range.
\<close>

definition clamp_min :: "rat \<Rightarrow> rat \<Rightarrow> jsnum \<Rightarrow> jsnum" where
  "clamp_min lo dflt x = (if x = NaN then Fin dflt else Math_max (Fin lo) x)"

definition clamp_range :: "rat \<Rightarrow> rat \<Rightarrow> jsnum \<Rightarrow> jsnum" where
  "clamp_range lo hi x = Math_min (Fin hi) (Math_max (Fin lo) x)"

text \<open>
  The batches of the import as the specification words them: consecutive pieces of \<open>n\<close>
  rows, submitted in order until one fails.
\<close>

function chunks :: "nat \<Rightarrow> 'a list \<Rightarrow> 'a list list" where
  "chunks n xs = (if n = 0 \<or> xs = [] then [] else take n xs # chunks n (drop n xs))"
  by pat_completeness auto
termination
  by (relation "measure (\<lambda>(n, xs). length xs)") auto

fun submit_batches ::
  "('db \<Rightarrow> 'a list \<Rightarrow> string + 'db) \<Rightarrow> 'db \<Rightarrow> 'a list list \<Rightarrow> 'db \<times> 'a list list \<times> string option" where
  "submit_batches ins db [] = (db, [], None)"
| "submit_batches ins db (b # bs) =
     (case ins db b of
        Inl m \<Rightarrow> (db, [b], Some m)
      | Inr db' \<Rightarrow> (case submit_batches ins db' bs of (d, sent, a) \<Rightarrow> (d, b # sent, a)))"

text \<open>
  Decimal digits of a natural number, and \<^verbatim>\<open>String(n)\<close> on the whole numbers below \<open>10^21\<close>
  in magnitude, \<open>NaN\<close> and the infinities: the renderer of the examples, which use it at
  whole numbers only (elsewhere it renders the integer part).
\<close>

fun digits :: "nat \<Rightarrow> string" where
  "digits n = (if n < 10 then [''0123456789'' ! n] else digits (n div 10) @ [''0123456789'' ! (n mod 10)])"

definition String_whole :: "jsnum \<Rightarrow> string" where
  "String_whole x =
     (case x of
        NaN \<Rightarrow> ''NaN''
      | PosInf \<Rightarrow> ''Infinity''
      | NegInf \<Rightarrow> ''-Infinity''
      | Fin r \<Rightarrow> if r < 0 then CHR ''-'' # digits (nat (- \<lfloor>r\<rfloor>)) else digits (nat \<lfloor>r\<rfloor>))"

section \<open>Example data\<close>

definition ex_w1 :: Workout where
  "ex_w1 =
     \<lparr>w_id = Some ''a1'', w_user_id = Some ''u1'', w_date = ''2024-05-01'',
      w_distance_m = Fin 1500, w_duration_min = Fin 25, w_stroke = ''Fly'',
      w_rpe = Some (Fin 6), w_notes = Some ''steady''\<rparr>"

definition ex_w2 :: Workout where
  "ex_w2 =
     \<lparr>w_id = Some ''a2'', w_user_id = Some ''u1'', w_date = ''2024-04-01'',
      w_distance_m = Fin 2000, w_duration_min = Fin 40, w_stroke = ''Free'',
      w_rpe = None, w_notes = Some ''Main set''\<rparr>"

definition ex_c1 :: Competition where
  "ex_c1 =
     \<lparr>c_id = Some ''k1'', c_user_id = Some ''u1'', c_date = ''2024-02-01'',
      c_meet = ''Spring Open'', c_distance_m = Fin 50, c_stroke = ''Free'',
      c_time_sec = Fin (2795 / 100), c_location = Some ''Oslo'', c_notes = None\<rparr>"

text \<open>
  A signed-in state with two sessions and one result, a session draft dated before both
  sessions with the effort field cleared (\<open>0\<close>), and a result draft with the distance and
  the time cleared.
\<close>

definition ex_draft :: Workout where
  "ex_draft =
     \<lparr>w_id = None, w_user_id = None, w_date = ''2024-01-01'', w_distance_m = Fin 800,
      w_duration_min = Fin 20, w_stroke = ''Back'', w_rpe = Some (Fin 0), w_notes = Some []\<rparr>"

definition ex_cdraft :: Competition where
  "ex_cdraft =
     \<lparr>c_id = None, c_user_id = None, c_date = ''2024-03-01'', c_meet = ''City Cup'',
      c_distance_m = Fin 0, c_stroke = ''Free'', c_time_sec = Fin 0,
      c_location = Some [], c_notes = Some []\<rparr>"

definition ex_state :: app_state where
  "ex_state =
     \<lparr>session = Some ''u1'', loading = False, rows = [ex_w1, ex_w2], comps = [ex_c1],
      pbs = [], draft = ex_draft, cdraft = ex_cdraft, editingId = None, ceditingId = None\<rparr>"

text \<open>
  A store that holds the imported rows in a list and refuses a batch that would take it
  beyond 1000 rows; its queries answer with the example records. And an imported row.
\<close>

definition ex_remote :: "import_row list remote" where
  "ex_remote =
     \<lparr>insert_workouts =
        (\<lambda>db b. if 1000 < length db + length b then Inl ''quota exceeded'' else Inr (db @ b)),
      select_workouts = (\<lambda>db. \<lparr>data = Some [ex_w1, ex_w2], error = None\<rparr>),
      select_competitions = (\<lambda>db. \<lparr>data = Some [ex_c1], error = None\<rparr>),
      select_personal_bests = (\<lambda>db. \<lparr>data = None, error = None\<rparr>)\<rparr>"

definition ex_row :: import_row where
  "ex_row =
     \<lparr>i_date = ''2024-05-01'', i_distance_m = Fin 1500, i_duration_min = Fin 25,
      i_stroke = ''Free'', i_rpe = Some (Fin 6), i_notes = Some ''steady'', i_user_id = ''u1''\<rparr>"

text \<open>
  A CSV file of a header and one line, the line as \<^verbatim>\<open>parseCSV\<close> reads it, and \<^verbatim>\<open>Number\<close> on
  its cells.
\<close>

definition ex_header :: string where
  "ex_header = ''date,distance_m,duration_min,stroke,rpe,notes''"

definition ex_file :: string where
  "ex_file = ex_header @ [CHR 0x0A] @ ''2024-05-01,1500,25,Free,6,steady'' @ [CHR 0x0A]"

definition ex_csv :: csv_row where
  "ex_csv =
     \<lparr>r_date = Some ''2024-05-01'', r_distance_m = Str ''1500'', r_duration_min = Str ''25'',
      r_stroke = ''Free'', r_rpe = Some ''6'', r_notes = ''steady''\<rparr>"

definition ex_Number :: "string \<Rightarrow> jsnum" where
  "ex_Number x =
     (if x = ''1500'' then Fin 1500 else if x = ''25'' then Fin 25
      else if x = ''6'' then Fin 6 else NaN)"

text \<open>
  A table of results: three over 50 m freestyle, of which two tie on the best time, and one
  over 100 m butterfly.
\<close>

definition ex_r1 :: competitions_row where
  "ex_r1 =
     \<lparr>cr_id = ''k1'', cr_user_id = ''u1'', cr_date = ''2024-01-01'', cr_meet = ''Winter Cup'',
      cr_distance_m = 50, cr_stroke = ''Free'', cr_time_sec = 2810 / 100,
      cr_location = None, cr_notes = None\<rparr>"

definition ex_r2 :: competitions_row where
  "ex_r2 =
     \<lparr>cr_id = ''k2'', cr_user_id = ''u1'', cr_date = ''2024-03-01'', cr_meet = ''City Cup'',
      cr_distance_m = 50, cr_stroke = ''Free'', cr_time_sec = 2795 / 100,
      cr_location = None, cr_notes = None\<rparr>"

definition ex_r3 :: competitions_row where
  "ex_r3 =
     \<lparr>cr_id = ''k3'', cr_user_id = ''u1'', cr_date = ''2024-02-01'', cr_meet = ''Spring Open'',
      cr_distance_m = 50, cr_stroke = ''Free'', cr_time_sec = 2795 / 100,
      cr_location = None, cr_notes = None\<rparr>"

definition ex_r4 :: competitions_row where
  "ex_r4 =
     \<lparr>cr_id = ''k4'', cr_user_id = ''u1'', cr_date = ''2024-01-15'', cr_meet = ''Winter Cup'',
      cr_distance_m = 100, cr_stroke = ''Fly'', cr_time_sec = 70,
      cr_location = Some ''Oslo'', cr_notes = None\<rparr>"

definition ex_table :: "competitions_row list" where
  "ex_table = [ex_r1, ex_r2, ex_r3, ex_r4]"

text \<open>
  A store that keeps the imported rows, refuses a batch that would take it beyond 1000 rows,
  and answers the workouts query with its first 500 rows as sessions, numbered; and the
  personal best that goes with \<open>ex_c1\<close>.
\<close>

definition stored_workout :: "nat \<times> import_row \<Rightarrow> Workout" where
  "stored_workout nr =
     \<lparr>w_id = Some (''w'' @ digits (fst nr)), w_user_id = Some (i_user_id (snd nr)),
      w_date = i_date (snd nr), w_distance_m = i_distance_m (snd nr),
      w_duration_min = i_duration_min (snd nr), w_stroke = i_stroke (snd nr),
      w_rpe = i_rpe (snd nr), w_notes = i_notes (snd nr)\<rparr>"

definition ex_pb :: PB where
  "ex_pb =
     \<lparr>pb_user_id = ''u1'', pb_stroke = ''Free'', pb_distance_m = Fin 50,
      pb_time_sec = Fin (2795 / 100), pb_date = ''2024-02-01'', pb_meet = ''Spring Open''\<rparr>"

definition ex_store :: "import_row list remote" where
  "ex_store =
     \<lparr>insert_workouts =
        (\<lambda>db b. if 1000 < length db + length b then Inl ''quota exceeded'' else Inr (db @ b)),
      select_workouts =
        (\<lambda>db. \<lparr>data = Some (map stored_workout (enumerate 0 (take 500 db))), error = None\<rparr>),
      select_competitions = (\<lambda>db. \<lparr>data = Some [ex_c1], error = None\<rparr>),
      select_personal_bests = (\<lambda>db. \<lparr>data = Some [ex_pb], error = None\<rparr>)\<rparr>"

text \<open>The session \<open>ex_w2\<close> moved to a date after \<open>ex_w1\<close>, as an edit would send it.\<close>

definition ex_edit :: Workout where
  "ex_edit = ex_w2\<lparr>w_id := None, w_date := ''2024-05-20''\<rparr>"

section \<open>Theorems\<close>

subsection \<open>Numbers, ids and the two array updates\<close>



lemma js_le_refl: "x \<noteq> NaN \<Longrightarrow> js_le x x"
  by (cases x) auto

lemma js_le_total: "x \<noteq> NaN \<Longrightarrow> y \<noteq> NaN \<Longrightarrow> \<not> js_le x y \<Longrightarrow> js_le y x"
  by (cases x; cases y) auto

lemma js_le_trans: "js_le x y \<Longrightarrow> js_le y z \<Longrightarrow> js_le x z"
  by (cases x; cases y; cases z) auto

lemma Math_max_lower: "x \<noteq> NaN \<Longrightarrow> js_le (Fin lo) (Math_max (Fin lo) x)"
  by (cases x) (auto simp: Math_max_def)

lemma clamp_range_bounds:
  "lo \<le> hi \<Longrightarrow> x \<noteq> NaN \<Longrightarrow> js_le (Fin lo) (clamp_range lo hi x) \<and> js_le (clamp_range lo hi x) (Fin hi)"
  by (cases x) (auto simp: clamp_range_def Math_max_def Math_min_def)

lemma clean_workout_distance: "w_distance_m (clean_workout d) = clamp_min 0 0 (w_distance_m d)"
  by (cases "w_distance_m d") (auto simp: clean_workout_def clamp_min_def num_or_def truthy_def Math_max_def)

lemma clean_workout_duration: "w_duration_min (clean_workout d) = clamp_min 0 0 (w_duration_min d)"
  by (cases "w_duration_min d") (auto simp: clean_workout_def clamp_min_def num_or_def truthy_def Math_max_def)

lemma clean_workout_rpe:
  "w_rpe (clean_workout d) =
     (case w_rpe d of
        None \<Rightarrow> None
      | Some r \<Rightarrow> if r = Fin 0 \<or> r = NaN then None else Some (clamp_range 1 10 r))"
  by (auto simp: clean_workout_def clamp_range_def truthy_def split: option.splits)

lemma clean_workout_rpe_range:
  "w_rpe (clean_workout d) = Some v \<Longrightarrow> js_le (Fin 1) v \<and> js_le v (Fin 10)"
  using clamp_range_bounds[of 1 10]
  by (auto simp: clean_workout_rpe split: option.splits if_splits)

lemma clean_competition_distance:
  "c_distance_m (clean_competition c) =
     (if c_distance_m c = Fin 0 then Fin 50 else clamp_min 25 50 (c_distance_m c))"
  by (cases "c_distance_m c") (auto simp: clean_competition_def clamp_min_def num_or_def truthy_def Math_max_def)

lemma clean_competition_time:
  "c_time_sec (clean_competition c) =
     (if c_time_sec c = Fin 0 then Fin 40 else clamp_min 1 40 (c_time_sec c))"
  by (cases "c_time_sec c") (auto simp: clean_competition_def clamp_min_def num_or_def truthy_def Math_max_def)

lemma clean_competition_lower:
  "js_le (Fin 25) (c_distance_m (clean_competition c)) \<and> js_le (Fin 1) (c_time_sec (clean_competition c))"
  by (cases "c_distance_m c"; cases "c_time_sec c")
     (auto simp: clean_competition_def num_or_def truthy_def Math_max_def)

lemma saveWorkout_request:
  "saveWorkout_start s tmp = Inr (s1, q, p) \<Longrightarrow>
     (\<exists>e. q = UpdateWorkout ((clean_workout (draft s))\<lparr>w_id := Some e\<rparr>) e) \<or>
     (\<exists>u. q = InsertWorkout ((clean_workout (draft s))\<lparr>w_user_id := Some u\<rparr>))"
  by (auto simp: saveWorkout_start_def Let_def split: option.splits if_splits)

lemma saveCompetition_request:
  "saveCompetition_start s tmp = Inr (s1, q, p) \<Longrightarrow>
     (\<exists>e. q = UpdateCompetition ((clean_competition (cdraft s))\<lparr>c_id := Some e\<rparr>) e) \<or>
     (\<exists>u. q = InsertCompetition ((clean_competition (cdraft s))\<lparr>c_user_id := Some u\<rparr>))"
  by (auto simp: saveCompetition_start_def Let_def split: option.splits if_splits)

lemma ids_distinct_same:
  "ids_distinct ident xs \<Longrightarrow> x \<in> set xs \<Longrightarrow> y \<in> set xs \<Longrightarrow> ident x = Some e \<Longrightarrow> ident y = Some e \<Longrightarrow> x = y"
proof (induction xs)
  case Nil
  then show ?case by simp
next
  case (Cons a xs)
  have tail: "ids_distinct ident xs"
    using Cons.prems(1) by (auto simp: ids_distinct_def split: option.splits)
  have fresh: "ident a = Some e \<Longrightarrow> z \<in> set xs \<Longrightarrow> ident z \<noteq> Some e" for z
    using Cons.prems(1) by (force simp: ids_distinct_def List.map_filter_def)
  show ?case
    using Cons.prems Cons.IH[OF tail] fresh by auto
qed

lemma map_by_id_absent: "\<forall>x\<in>set xs. ident x \<noteq> Some e \<Longrightarrow> map_by_id ident e y xs = xs"
  by (induction xs) (auto simp: map_by_id_def)

lemma map_by_id_restore:
  assumes "ids_distinct ident xs" and "ident y = Some e"
  shows "map_by_id_opt ident e (find (\<lambda>r. ident r = Some e) xs) (map_by_id ident e y xs) = Some xs"
proof (cases "find (\<lambda>r. ident r = Some e) xs")
  case None
  then have absent: "\<forall>x\<in>set xs. ident x \<noteq> Some e"
    by (simp add: find_None_iff)
  then show ?thesis
    using None by (simp add: map_by_id_opt_def map_by_id_absent list_ex_iff)
next
  case (Some p)
  then have p: "p \<in> set xs" "ident p = Some e"
    by (auto simp: find_Some_iff)
  have "map (\<lambda>x. if ident x = Some e then p else x) (map (\<lambda>x. if ident x = Some e then y else x) xs) = map (\<lambda>x. x) xs"
    unfolding map_map
  proof (rule map_cong[OF refl])
    fix x assume "x \<in> set xs"
    then show "((\<lambda>x. if ident x = Some e then p else x) \<circ> (\<lambda>x. if ident x = Some e then y else x)) x = x"
      using ids_distinct_same[OF assms(1) _ p(1) _ p(2), of x] assms(2) by auto
  qed
  then show ?thesis
    using Some by (simp add: map_by_id_opt_def map_by_id_def)
qed

lemma remove_by_id_fresh:
  "Some t \<notin> ident ` set xs \<Longrightarrow> ident y = Some t \<Longrightarrow> remove_by_id ident t (y # xs) = xs"
  by (auto simp: remove_by_id_def filter_id_conv image_iff)

lemma saveWorkout_rollback:
  assumes "saveWorkout_start s tmp = Inr (s1, q, p)"
    and "ids_distinct w_id (rows s)" and "Some tmp \<notin> w_id ` set (rows s)"
    and "error r = Some m"
  shows "\<exists>s2 fx. saveWorkout_finish today s1 p r = Some (s2, fx) \<and> rows s2 = rows s \<and> Alert m \<in> set fx"
proof -
  obtain u where u: "session s = Some u"
    using assms(1) by (auto simp: saveWorkout_start_def Let_def split: option.splits)
  show ?thesis
  proof (cases "truthy_str (editingId s)")
    case True
    then obtain e where e: "editingId s = Some e"
      by (auto simp: truthy_str_def split: option.splits)
    have "map_by_id_opt w_id e (find (\<lambda>r. w_id r = Some e) (rows s))
            (map_by_id w_id e ((clean_workout (draft s))\<lparr>w_id := Some e\<rparr>) (rows s)) = Some (rows s)"
      by (rule map_by_id_restore[OF assms(2)]) simp
    then show ?thesis
      using assms(1,4) u True e
      by (auto simp: saveWorkout_start_def saveWorkout_finish_def Let_def)
  next
    case False
    have "remove_by_id w_id tmp ((clean_workout (draft s))\<lparr>w_id := Some tmp\<rparr> # rows s) = rows s"
      by (rule remove_by_id_fresh[OF assms(3)]) simp
    then show ?thesis
      using assms(1,4) u False
      by (auto simp: saveWorkout_start_def saveWorkout_finish_def Let_def)
  qed
qed

lemma saveCompetition_rollback:
  assumes "saveCompetition_start s tmp = Inr (s1, q, p)"
    and "ids_distinct c_id (comps s)" and "Some tmp \<notin> c_id ` set (comps s)"
    and "error r = Some m"
  shows "\<exists>s2 fx. saveCompetition_finish today s1 p r = Some (s2, fx) \<and> comps s2 = comps s \<and> Alert m \<in> set fx"
proof -
  obtain u where u: "session s = Some u"
    using assms(1) by (auto simp: saveCompetition_start_def Let_def split: option.splits)
  show ?thesis
  proof (cases "truthy_str (ceditingId s)")
    case True
    then obtain e where e: "ceditingId s = Some e"
      by (auto simp: truthy_str_def split: option.splits)
    have "map_by_id_opt c_id e (find (\<lambda>r. c_id r = Some e) (comps s))
            (map_by_id c_id e ((clean_competition (cdraft s))\<lparr>c_id := Some e\<rparr>) (comps s)) = Some (comps s)"
      by (rule map_by_id_restore[OF assms(2)]) simp
    then show ?thesis
      using assms(1,4) u True e
      by (auto simp: saveCompetition_start_def saveCompetition_finish_def Let_def)
  next
    case False
    have "remove_by_id c_id tmp ((clean_competition (cdraft s))\<lparr>c_id := Some tmp\<rparr> # comps s) = comps s"
      by (rule remove_by_id_fresh[OF assms(3)]) simp
    then show ?thesis
      using assms(1,4) u False
      by (auto simp: saveCompetition_start_def saveCompetition_finish_def Let_def)
  qed
qed

lemma deleteWorkout_rollback:
  "deleteWorkout_start s c i = Some (s1, q, prev) \<Longrightarrow>
     rows (fst (deleteWorkout_finish s1 prev (Some m))) = rows s \<and>
     snd (deleteWorkout_finish s1 prev (Some m)) = [Alert m]"
  by (auto simp: deleteWorkout_start_def deleteWorkout_finish_def split: if_splits)

lemma deleteCompetition_rollback:
  "deleteCompetition_start s c i = Some (s1, q, prev) \<Longrightarrow>
     comps (fst (deleteCompetition_finish s1 prev (Some m))) = comps s \<and>
     Alert m \<in> set (snd (deleteCompetition_finish s1 prev (Some m)))"
  by (auto simp: deleteCompetition_start_def deleteCompetition_finish_def split: if_splits)


lemma fetchAll_ok:
  "load_ok rem db \<Longrightarrow>
     fetchAll rem db s =
       (s\<lparr>rows := answer_of (select_workouts rem db),
          comps := answer_of (select_competitions rem db),
          pbs := answer_of (select_personal_bests rem db), loading := False\<rparr>, [])"
  by (auto simp: fetchAll_def load_ok_def answer_of_def Let_def)

lemma fetchAll_failed:
  "\<not> load_ok rem db \<Longrightarrow> \<exists>m. fetchAll rem db s = (s\<lparr>loading := False\<rparr>, [Alert m])"
  by (auto simp: fetchAll_def load_ok_def Let_def split: option.splits)

lemmas ex_defs = ex_state_def ex_w1_def ex_w2_def ex_c1_def ex_draft_def ex_cdraft_def

lemmas crud_defs =
  saveWorkout_start_def saveWorkout_finish_def deleteWorkout_start_def deleteWorkout_finish_def
  saveCompetition_start_def saveCompetition_finish_def deleteCompetition_start_def
  deleteCompetition_finish_def clean_workout_def clean_competition_def map_by_id_def
  map_by_id_opt_def remove_by_id_def truthy_str_def num_or_def truthy_def Math_max_def
  Math_min_def ids_distinct_def Let_def



subsection \<open>C1: the view holds the best result of every key\<close>



lemma order_key_mono:
  "pb_order_key x \<le> pb_order_key y \<Longrightarrow> pb_distinct_key x \<le> pb_distinct_key y"
  by (auto simp: pb_order_key_def pb_distinct_key_def less_eq_prod_def less_prod_def)

lemma order_key_same:
  "pb_order_key x \<le> pb_order_key y \<Longrightarrow> pb_distinct_key x = pb_distinct_key y \<Longrightarrow>
     cr_time_sec x \<le> cr_time_sec y \<and> (cr_time_sec x = cr_time_sec y \<longrightarrow> cr_date x \<le> cr_date y)"
  by (auto simp: pb_order_key_def pb_distinct_key_def less_eq_prod_def less_prod_def)

lemma distinct_on_subset: "set (distinct_on k xs) \<subseteq> set xs"
  by (induction k xs rule: distinct_on.induct) auto

lemma distinct_on_keys: "k ` set (distinct_on k xs) = k ` set xs"
  by (induction k xs rule: distinct_on.induct) auto

lemma distinct_on_distinct:
  fixes f :: "'a \<Rightarrow> 'b::linorder" and k :: "'a \<Rightarrow> 'c::linorder"
  shows "\<forall>x y. f x \<le> f y \<longrightarrow> k x \<le> k y \<Longrightarrow> sorted (map f xs) \<Longrightarrow>
           distinct (map k (distinct_on k xs))"
proof (induction k xs rule: distinct_on.induct)
  case (3 k x y xs)
  note mono = "3.prems"(1)
  show ?case
  proof (cases "k x = k y")
    case True
    then show ?thesis
      using 3 by simp
  next
    case False
    have "k x \<noteq> k z" if "z \<in> set (distinct_on k (y # xs))" for z
    proof -
      have "z \<in> set (y # xs)"
        using that distinct_on_subset by fastforce
      then have "f y \<le> f z"
        using "3.prems"(2) by auto
      then have "k y \<le> k z"
        using mono by blast
      moreover have "k x \<le> k y"
        using "3.prems"(2) mono by simp
      ultimately show ?thesis
        using False by auto
    qed
    then show ?thesis
      using 3 False by auto
  qed
qed simp_all

lemma distinct_on_first:
  fixes f :: "'a \<Rightarrow> 'b::linorder" and k :: "'a \<Rightarrow> 'c::linorder"
  shows "\<forall>x y. f x \<le> f y \<longrightarrow> k x \<le> k y \<Longrightarrow> sorted (map f xs) \<Longrightarrow>
           p \<in> set (distinct_on k xs) \<Longrightarrow> c \<in> set xs \<Longrightarrow> k c = k p \<Longrightarrow> f p \<le> f c"
proof (induction k xs arbitrary: p c rule: distinct_on.induct)
  case (1 k)
  then show ?case by simp
next
  case (2 k x)
  then show ?case by simp
next
  case (3 k x y xs)
  note mono = "3.prems"(1)
  have fxy: "f x \<le> f y" and fx: "\<forall>z\<in>set xs. f x \<le> f z" and fy: "\<forall>z\<in>set xs. f y \<le> f z"
    and sx: "sorted (map f (x # xs))" and sy: "sorted (map f (y # xs))"
    using "3.prems"(2) by auto
  show ?case
  proof (cases "k x = k y")
    case True
    then have p: "p \<in> set (distinct_on k (x # xs))"
      using "3.prems"(3) by simp
    show ?thesis
    proof (cases "c = y")
      case cy: True
      have "f p \<le> f x"
        using "3.IH"(1)[OF True mono sx p, of x] True cy "3.prems"(5) by simp
      then show ?thesis
        using fxy cy by simp
    next
      case False
      then have "c \<in> set (x # xs)"
        using "3.prems"(4) by auto
      then show ?thesis
        using "3.IH"(1)[OF True mono sx p _ "3.prems"(5)] by blast
    qed
  next
    case False
    then have p: "p = x \<or> p \<in> set (distinct_on k (y # xs))"
      using "3.prems"(3) by auto
    show ?thesis
    proof (cases "p = x")
      case True
      then show ?thesis
        using "3.prems"(4) fxy fx by auto
    next
      case px: False
      then have p': "p \<in> set (distinct_on k (y # xs))"
        using p by simp
      then have "p \<in> set (y # xs)"
        using distinct_on_subset by fastforce
      then have "f y \<le> f p"
        using fy by auto
      then have kyp: "k y \<le> k p"
        using mono by blast
      have kxy: "k x \<le> k y"
        using fxy mono by blast
      have "c \<noteq> x"
        using kyp kxy False "3.prems"(5) by auto
      then have "c \<in> set (y # xs)"
        using "3.prems"(4) by auto
      then show ?thesis
        using "3.IH"(2)[OF False mono sy p' _ "3.prems"(5)] by blast
    qed
  qed
qed

lemma filter_unique_key:
  "distinct (map k ds) \<Longrightarrow> p \<in> set ds \<Longrightarrow> filter (\<lambda>x. k x = k p) ds = [p]"
proof (induction ds)
  case Nil
  then show ?case by simp
next
  case (Cons a ds)
  show ?case
  proof (cases "p = a")
    case True
    have "k a \<notin> set (map k ds)"
      using Cons.prems(1) by simp
    then have "\<forall>x\<in>set ds. k x \<noteq> k a"
      by (metis imageI image_set)
    then have "filter (\<lambda>x. k x = k a) ds = []"
      by (simp add: filter_empty_conv)
    then show ?thesis
      using True by simp
  next
    case False
    then have "p \<in> set ds"
      using Cons.prems(2) by simp
    moreover then have "k a \<noteq> k p"
      using Cons.prems(1) by auto
    ultimately show ?thesis
      using Cons by simp
  qed
qed

lemma v_key_select: "v_key (pb_select x) = pb_distinct_key x"
  by (simp add: v_key_def pb_select_def pb_distinct_key_def)

text \<open>Any order of the rows that respects the order by clause gives these properties.\<close>

lemma distinct_on_sorted_best:
  assumes srt: "sorted (map pb_order_key xs)" and r: "r \<in> set xs"
  shows "\<exists>p\<in>set xs. pb_distinct_key p = pb_distinct_key r \<and>
           filter (\<lambda>v. v_key v = pb_distinct_key r) (map pb_select (distinct_on pb_distinct_key xs)) =
             [pb_select p] \<and>
           (\<forall>c\<in>set xs. pb_distinct_key c = pb_distinct_key r \<longrightarrow>
              cr_time_sec p \<le> cr_time_sec c \<and>
              (cr_time_sec c = cr_time_sec p \<longrightarrow> cr_date p \<le> cr_date c))"
proof -
  let ?ds = "distinct_on pb_distinct_key xs"
  have mono: "\<forall>x y. pb_order_key x \<le> pb_order_key y \<longrightarrow> pb_distinct_key x \<le> pb_distinct_key y"
    using order_key_mono by blast
  have "pb_distinct_key r \<in> pb_distinct_key ` set ?ds"
    using r by (simp add: distinct_on_keys)
  then obtain p where p: "p \<in> set ?ds" and kp: "pb_distinct_key p = pb_distinct_key r"
    by auto
  have pxs: "p \<in> set xs"
    using p distinct_on_subset by fastforce
  have "filter (\<lambda>x. pb_distinct_key x = pb_distinct_key p) ?ds = [p]"
    using distinct_on_distinct[OF mono srt] p by (rule filter_unique_key)
  then have one: "filter (\<lambda>v. v_key v = pb_distinct_key r) (map pb_select ?ds) = [pb_select p]"
    by (simp add: filter_map o_def v_key_select kp)
  have best: "cr_time_sec p \<le> cr_time_sec c \<and> (cr_time_sec c = cr_time_sec p \<longrightarrow> cr_date p \<le> cr_date c)"
    if "c \<in> set xs" and "pb_distinct_key c = pb_distinct_key r" for c
  proof -
    have "pb_order_key p \<le> pb_order_key c"
      using distinct_on_first[OF mono srt p that(1)] that(2) kp by simp
    then show ?thesis
      using order_key_same[of p c] that(2) kp by auto
  qed
  show ?thesis
    using pxs kp one best by blast
qed

lemmas table_defs = ex_table_def ex_r1_def ex_r2_def ex_r3_def ex_r4_def

lemma ex_personal_bests:
  "personal_bests ex_table = [pb_select ex_r4, pb_select ex_r3]"
  by (simp add: personal_bests_def table_defs pb_order_key_def pb_distinct_key_def pb_select_def)

text \<open>
  C1. For every result of the table, the view \<^verbatim>\<open>personal_bests\<close> has exactly one row with
  its user, stroke and distance; the time of that row is the least time among the results
  of that key, and its date is the earliest date among those of them that have that time.
  Every row of the view has the key of some result.
\<close>

theorem personal_bests_minimum:
  "(\<forall>r\<in>set t. \<exists>p.
      filter (\<lambda>v. v_key v = pb_distinct_key r) (personal_bests t) = [p] \<and>
      v_time_sec p = Min (cr_time_sec ` same_key t r) \<and>
      v_date p = Min (cr_date ` {x \<in> same_key t r. cr_time_sec x = v_time_sec p})) \<and>
   (\<forall>v\<in>set (personal_bests t). \<exists>r\<in>set t. v_key v = pb_distinct_key r)"
proof (intro conjI ballI)
  let ?s = "sort_key pb_order_key t"
  have srt: "sorted (map pb_order_key ?s)" and set_s: "set ?s = set t"
    by simp_all
  fix r assume "r \<in> set t"
  then have "r \<in> set ?s"
    by simp
  from distinct_on_sorted_best[OF srt this]
  obtain p where p: "p \<in> set t" and kp: "pb_distinct_key p = pb_distinct_key r"
    and one: "filter (\<lambda>v. v_key v = pb_distinct_key r) (personal_bests t) = [pb_select p]"
    and best: "\<forall>c\<in>set t. pb_distinct_key c = pb_distinct_key r \<longrightarrow>
              cr_time_sec p \<le> cr_time_sec c \<and>
              (cr_time_sec c = cr_time_sec p \<longrightarrow> cr_date p \<le> cr_date c)"
    unfolding personal_bests_def set_s by blast
  have tmin: "Min (cr_time_sec ` same_key t r) = cr_time_sec p"
  proof (rule Min_eqI)
    show "finite (cr_time_sec ` same_key t r)"
      by (simp add: same_key_def)
    show "cr_time_sec p \<le> y" if "y \<in> cr_time_sec ` same_key t r" for y
      using that best by (auto simp: same_key_def)
    show "cr_time_sec p \<in> cr_time_sec ` same_key t r"
      using p kp by (auto simp: same_key_def)
  qed
  have dmin: "Min (cr_date ` {x \<in> same_key t r. cr_time_sec x = cr_time_sec p}) = cr_date p"
  proof (rule Min_eqI)
    show "finite (cr_date ` {x \<in> same_key t r. cr_time_sec x = cr_time_sec p})"
      by (simp add: same_key_def)
    show "cr_date p \<le> y" if "y \<in> cr_date ` {x \<in> same_key t r. cr_time_sec x = cr_time_sec p}" for y
      using that best by (auto simp: same_key_def)
    show "cr_date p \<in> cr_date ` {x \<in> same_key t r. cr_time_sec x = cr_time_sec p}"
      using p kp by (auto simp: same_key_def)
  qed
  have sel: "v_time_sec (pb_select p) = cr_time_sec p" "v_date (pb_select p) = cr_date p"
    by (simp_all add: pb_select_def)
  show "\<exists>p. filter (\<lambda>v. v_key v = pb_distinct_key r) (personal_bests t) = [p] \<and>
      v_time_sec p = Min (cr_time_sec ` same_key t r) \<and>
      v_date p = Min (cr_date ` {x \<in> same_key t r. cr_time_sec x = v_time_sec p})"
    using one tmin dmin sel by (intro exI[of _ "pb_select p"]) simp
next
  fix v assume "v \<in> set (personal_bests t)"
  then obtain x where x: "x \<in> set (distinct_on pb_distinct_key (sort_key pb_order_key t))"
    and v: "v = pb_select x"
    by (auto simp: personal_bests_def)
  have "x \<in> set (sort_key pb_order_key t)"
    using x distinct_on_subset by fastforce
  then have "x \<in> set t"
    by simp
  then show "\<exists>r\<in>set t. v_key v = pb_distinct_key r"
    using v v_key_select by blast
qed

theorem personal_bests_minimum_witness:
  "ex_r1 \<in> set ex_table \<and>
   personal_bests ex_table = [pb_select ex_r4, pb_select ex_r3] \<and>
   (\<exists>p. filter (\<lambda>v. v_key v = pb_distinct_key ex_r1) (personal_bests ex_table) = [p] \<and>
      p = pb_select ex_r3 \<and>
      v_time_sec p = Min (cr_time_sec ` same_key ex_table ex_r1) \<and>
      v_date p = Min (cr_date ` {x \<in> same_key ex_table ex_r1. cr_time_sec x = v_time_sec p}))"
proof -
  have mem: "ex_r1 \<in> set ex_table"
    by (simp add: ex_table_def)
  have "\<exists>p. filter (\<lambda>v. v_key v = pb_distinct_key ex_r1) (personal_bests ex_table) = [p] \<and>
      v_time_sec p = Min (cr_time_sec ` same_key ex_table ex_r1) \<and>
      v_date p = Min (cr_date ` {x \<in> same_key ex_table ex_r1. cr_time_sec x = v_time_sec p})"
    using personal_bests_minimum[of ex_table] mem by blast
  then obtain p where p: "filter (\<lambda>v. v_key v = pb_distinct_key ex_r1) (personal_bests ex_table) = [p]"
    and m: "v_time_sec p = Min (cr_time_sec ` same_key ex_table ex_r1)"
      "v_date p = Min (cr_date ` {x \<in> same_key ex_table ex_r1. cr_time_sec x = v_time_sec p})"
    by blast
  have "filter (\<lambda>v. v_key v = pb_distinct_key ex_r1) (personal_bests ex_table) = [pb_select ex_r3]"
    unfolding ex_personal_bests
    by (simp add: v_key_select) (simp add: pb_distinct_key_def table_defs)
  then have "p = pb_select ex_r3"
    using p by simp
  then show ?thesis
    using mem ex_personal_bests p m by blast
qed


subsection \<open>C2: a failed remote call rolls the optimistic change back\<close>

text \<open>
  C2. For create, update and delete on sessions and on results: when the handler is resumed
  with an error in the state its optimistic step produced, the collection is again what it
  was before that step, and the store's message is alerted. The ids held are pairwise
  distinct and the temporary id is none of them (ids are identifiers: primary keys of the
  store and fresh UUIDs).
\<close>

theorem rollback_restores:
  "(\<forall>s1 q p. saveWorkout_start s tmp = Inr (s1, q, p) \<and> ids_distinct w_id (rows s) \<and>
       Some tmp \<notin> w_id ` set (rows s) \<and> error r = Some m \<longrightarrow>
       (\<exists>s2 fx. saveWorkout_finish today s1 p r = Some (s2, fx) \<and> rows s2 = rows s \<and>
          Alert m \<in> set fx)) \<and>
   (\<forall>s1 q p. saveCompetition_start s tmp = Inr (s1, q, p) \<and> ids_distinct c_id (comps s) \<and>
       Some tmp \<notin> c_id ` set (comps s) \<and> error rc = Some m \<longrightarrow>
       (\<exists>s2 fx. saveCompetition_finish today s1 p rc = Some (s2, fx) \<and> comps s2 = comps s \<and>
          Alert m \<in> set fx)) \<and>
   (\<forall>s1 q prev. deleteWorkout_start s confirmed i = Some (s1, q, prev) \<longrightarrow>
       rows (fst (deleteWorkout_finish s1 prev (Some m))) = rows s \<and>
       Alert m \<in> set (snd (deleteWorkout_finish s1 prev (Some m)))) \<and>
   (\<forall>s1 q prev. deleteCompetition_start s confirmed i = Some (s1, q, prev) \<longrightarrow>
       comps (fst (deleteCompetition_finish s1 prev (Some m))) = comps s \<and>
       Alert m \<in> set (snd (deleteCompetition_finish s1 prev (Some m))))"
proof (intro conjI allI impI)
  fix s1 q p
  assume "saveWorkout_start s tmp = Inr (s1, q, p) \<and> ids_distinct w_id (rows s) \<and>
       Some tmp \<notin> w_id ` set (rows s) \<and> error r = Some m"
  then show "\<exists>s2 fx. saveWorkout_finish today s1 p r = Some (s2, fx) \<and> rows s2 = rows s \<and>
          Alert m \<in> set fx"
    using saveWorkout_rollback by blast
next
  fix s1 q p
  assume "saveCompetition_start s tmp = Inr (s1, q, p) \<and> ids_distinct c_id (comps s) \<and>
       Some tmp \<notin> c_id ` set (comps s) \<and> error rc = Some m"
  then show "\<exists>s2 fx. saveCompetition_finish today s1 p rc = Some (s2, fx) \<and> comps s2 = comps s \<and>
          Alert m \<in> set fx"
    using saveCompetition_rollback by blast
next
  fix s1 q prev
  assume "deleteWorkout_start s confirmed i = Some (s1, q, prev)"
  then show "rows (fst (deleteWorkout_finish s1 prev (Some m))) = rows s"
    and "Alert m \<in> set (snd (deleteWorkout_finish s1 prev (Some m)))"
    using deleteWorkout_rollback by fastforce+
next
  fix s1 q prev
  assume "deleteCompetition_start s confirmed i = Some (s1, q, prev)"
  then show "comps (fst (deleteCompetition_finish s1 prev (Some m))) = comps s"
    and "Alert m \<in> set (snd (deleteCompetition_finish s1 prev (Some m)))"
    using deleteCompetition_rollback by fastforce+
qed

theorem rollback_restores_witness:
  "ids_distinct w_id (rows ex_state) \<and> Some ''t1'' \<notin> w_id ` set (rows ex_state) \<and>
   ids_distinct c_id (comps ex_state) \<and> Some ''t1'' \<notin> c_id ` set (comps ex_state) \<and>
   saveWorkout_start (ex_state\<lparr>editingId := Some ''a2''\<rparr>) ''t1'' =
     Inr (ex_state\<lparr>editingId := Some ''a2'', rows := [ex_w1, ex_draft\<lparr>w_id := Some ''a2'', w_rpe := None\<rparr>]\<rparr>,
          UpdateWorkout (ex_draft\<lparr>w_id := Some ''a2'', w_rpe := None\<rparr>) ''a2'',
          PendingUpdate ''a2'' (Some ex_w2)) \<and>
   (\<exists>s2 fx.
      saveWorkout_finish ''2024-06-01''
        (ex_state\<lparr>editingId := Some ''a2'', rows := [ex_w1, ex_draft\<lparr>w_id := Some ''a2'', w_rpe := None\<rparr>]\<rparr>)
        (PendingUpdate ''a2'' (Some ex_w2)) \<lparr>data = None, error = Some ''denied''\<rparr> = Some (s2, fx) \<and>
      rows s2 = [ex_w1, ex_w2] \<and> Alert ''denied'' \<in> set fx) \<and>
   saveCompetition_start (ex_state\<lparr>editingId := Some ''a2''\<rparr>) ''t1'' =
     Inr (ex_state\<lparr>editingId := Some ''a2'',
            comps := [ex_cdraft\<lparr>c_id := Some ''t1'', c_distance_m := Fin 50, c_time_sec := Fin 40\<rparr>, ex_c1]\<rparr>,
          InsertCompetition (ex_cdraft\<lparr>c_user_id := Some ''u1'', c_distance_m := Fin 50, c_time_sec := Fin 40\<rparr>),
          PendingInsert ''t1'') \<and>
   (\<exists>s2 fx.
      saveCompetition_finish ''2024-06-01''
        (ex_state\<lparr>editingId := Some ''a2'',
            comps := [ex_cdraft\<lparr>c_id := Some ''t1'', c_distance_m := Fin 50, c_time_sec := Fin 40\<rparr>, ex_c1]\<rparr>)
        (PendingInsert ''t1'') \<lparr>data = None, error = Some ''denied''\<rparr> = Some (s2, fx) \<and>
      comps s2 = [ex_c1] \<and> Alert ''denied'' \<in> set fx) \<and>
   deleteWorkout_start (ex_state\<lparr>editingId := Some ''a2''\<rparr>) True ''a1'' =
     Some (ex_state\<lparr>editingId := Some ''a2'', rows := [ex_w2]\<rparr>, DeleteWorkout ''a1'', [ex_w1, ex_w2]) \<and>
   rows (fst (deleteWorkout_finish (ex_state\<lparr>editingId := Some ''a2'', rows := [ex_w2]\<rparr>)
                [ex_w1, ex_w2] (Some ''denied''))) = [ex_w1, ex_w2]"
  using rollback_restores
    [of "ex_state\<lparr>editingId := Some ''a2''\<rparr>" "''t1''" "\<lparr>data = None, error = Some ''denied''\<rparr>"
        "''denied''" "''2024-06-01''" "\<lparr>data = None, error = Some ''denied''\<rparr>" True "''a1''"]
  by (simp add: ex_defs crud_defs)

subsection \<open>C3: mutations while signed out\<close>






subsection \<open>C4: normalization of a draft\<close>

text \<open>
  A cleared effort field (\<open>0\<close>) is omitted, not clamped to \<open>1\<close>; a result's distance \<open>0\<close>
  becomes \<open>50\<close>, not \<open>25\<close>, and a time \<open>0\<close> becomes \<open>40\<close>, not \<open>1\<close>: \<^verbatim>\<open>||\<close> and the
  conditional take \<open>0\<close> for a missing value.
\<close>

theorem clean_zero_counterexample:
  "w_rpe ex_draft = Some (Fin 0) \<and>
   w_rpe (clean_workout ex_draft) \<noteq> Some (clamp_range 1 10 (Fin 0)) \<and>
   w_rpe (clean_workout ex_draft) = None \<and>
   c_distance_m (clean_competition ex_cdraft) \<noteq> clamp_min 25 50 (c_distance_m ex_cdraft) \<and>
   c_distance_m (clean_competition ex_cdraft) = Fin 50 \<and>
   clamp_min 25 50 (c_distance_m ex_cdraft) = Fin 25 \<and>
   c_time_sec (clean_competition ex_cdraft) \<noteq> clamp_min 1 40 (c_time_sec ex_cdraft) \<and>
   c_time_sec (clean_competition ex_cdraft) = Fin 40 \<and>
   clamp_min 1 40 (c_time_sec ex_cdraft) = Fin 1"
  by (simp add: ex_defs crud_defs clamp_min_def clamp_range_def)


text \<open>
  C4 (amended). Session distance and duration are clamped to \<open>\<ge> 0\<close>, \<open>0\<close> if not a number.
  The effort is omitted when absent, \<open>0\<close> or not a number, and otherwise clamped into
  \<open>[1, 10]\<close>. A result's distance is \<open>50\<close> when \<open>0\<close> or not a number and otherwise clamped to
  \<open>\<ge> 25\<close>; its time is \<open>40\<close> when \<open>0\<close> or not a number and otherwise clamped to \<open>\<ge> 1\<close>. The
  request of a save carries the cleaned draft.
\<close>

theorem clean_normalization:
  "w_distance_m (clean_workout d) = clamp_min 0 0 (w_distance_m d) \<and>
   w_duration_min (clean_workout d) = clamp_min 0 0 (w_duration_min d) \<and>
   w_rpe (clean_workout d) =
     (case w_rpe d of
        None \<Rightarrow> None
      | Some x \<Rightarrow> if x = Fin 0 \<or> x = NaN then None else Some (clamp_range 1 10 x)) \<and>
   (\<forall>v. w_rpe (clean_workout d) = Some v \<longrightarrow> js_le (Fin 1) v \<and> js_le v (Fin 10)) \<and>
   c_distance_m (clean_competition c) =
     (if c_distance_m c = Fin 0 then Fin 50 else clamp_min 25 50 (c_distance_m c)) \<and>
   c_time_sec (clean_competition c) =
     (if c_time_sec c = Fin 0 then Fin 40 else clamp_min 1 40 (c_time_sec c)) \<and>
   js_le (Fin 25) (c_distance_m (clean_competition c)) \<and>
   js_le (Fin 1) (c_time_sec (clean_competition c)) \<and>
   (\<forall>s1 q p. saveWorkout_start s tmp = Inr (s1, q, p) \<longrightarrow>
      (\<exists>e. q = UpdateWorkout ((clean_workout (draft s))\<lparr>w_id := Some e\<rparr>) e) \<or>
      (\<exists>u. q = InsertWorkout ((clean_workout (draft s))\<lparr>w_user_id := Some u\<rparr>))) \<and>
   (\<forall>s1 q p. saveCompetition_start s tmp = Inr (s1, q, p) \<longrightarrow>
      (\<exists>e. q = UpdateCompetition ((clean_competition (cdraft s))\<lparr>c_id := Some e\<rparr>) e) \<or>
      (\<exists>u. q = InsertCompetition ((clean_competition (cdraft s))\<lparr>c_user_id := Some u\<rparr>)))"
  using clean_workout_distance clean_workout_duration clean_workout_rpe clean_workout_rpe_range
    clean_competition_distance clean_competition_time clean_competition_lower
    saveWorkout_request saveCompetition_request
  by (intro conjI allI impI) blast+

theorem clean_normalization_witness:
  "w_rpe (clean_workout (ex_draft\<lparr>w_rpe := Some (Fin 12), w_distance_m := Fin (- 5)\<rparr>)) = Some (Fin 10) \<and>
   js_le (Fin 1) (Fin 10) \<and> js_le (Fin 10) (Fin 10) \<and>
   w_distance_m (clean_workout (ex_draft\<lparr>w_rpe := Some (Fin 12), w_distance_m := Fin (- 5)\<rparr>)) = Fin 0 \<and>
   c_distance_m (clean_competition (ex_cdraft\<lparr>c_distance_m := Fin 10, c_time_sec := NaN\<rparr>)) = Fin 25 \<and>
   c_time_sec (clean_competition (ex_cdraft\<lparr>c_distance_m := Fin 10, c_time_sec := NaN\<rparr>)) = Fin 40 \<and>
   saveWorkout_start (ex_state\<lparr>draft := ex_draft\<lparr>w_rpe := Some (Fin 12), w_distance_m := Fin (- 5)\<rparr>\<rparr>) ''t1'' =
     Inr (ex_state\<lparr>draft := ex_draft\<lparr>w_rpe := Some (Fin 12), w_distance_m := Fin (- 5)\<rparr>,
                   rows := [ex_draft\<lparr>w_id := Some ''t1'', w_rpe := Some (Fin 10), w_distance_m := Fin 0\<rparr>,
                            ex_w1, ex_w2]\<rparr>,
          InsertWorkout (ex_draft\<lparr>w_user_id := Some ''u1'', w_rpe := Some (Fin 10), w_distance_m := Fin 0\<rparr>),
          PendingInsert ''t1'')"
  using clean_normalization
    [of "ex_draft\<lparr>w_rpe := Some (Fin 12), w_distance_m := Fin (- 5)\<rparr>"
        "ex_cdraft\<lparr>c_distance_m := Fin 10, c_time_sec := NaN\<rparr>"
        "ex_state\<lparr>draft := ex_draft\<lparr>w_rpe := Some (Fin 12), w_distance_m := Fin (- 5)\<rparr>\<rparr>" "''t1''"]
  by (simp add: ex_defs crud_defs clamp_min_def clamp_range_def)


subsection \<open>C5: the order of the list by date\<close>


lemma sorted_by_date_desc_Cons:
  "sorted_by_date_desc (x # xs) \<longleftrightarrow> (\<forall>y\<in>set xs. w_date y \<le> w_date x) \<and> sorted_by_date_desc xs"
  by (simp add: sorted_by_date_desc_def)

lemma sorted_by_date_desc_remove:
  "sorted_by_date_desc xs \<Longrightarrow> sorted_by_date_desc (remove_by_id w_id i xs)"
  by (simp add: sorted_by_date_desc_def remove_by_id_def sorted_wrt_filter)

lemma sorted_by_date_desc_dates:
  "sorted_by_date_desc xs \<longleftrightarrow> sorted_wrt (\<lambda>a b. b \<le> a) (map w_date xs)"
  by (simp add: sorted_by_date_desc_def sorted_wrt_map)

lemma dates_map_by_id:
  "map w_date (map_by_id w_id e u xs) =
     map (\<lambda>x. if w_id x = Some e then w_date u else w_date x) xs"
  by (simp add: map_by_id_def)

lemma clean_workout_date: "w_date (clean_workout d) = w_date d"
  by (simp add: clean_workout_def)

lemma saveWorkout_create:
  "saveWorkout_start s tmp = Inr (s1, q, p) \<Longrightarrow> \<not> truthy_str (editingId s) \<Longrightarrow>
     rows s1 = (clean_workout (draft s))\<lparr>w_id := Some tmp\<rparr> # rows s \<and> p = PendingInsert tmp"
  by (auto simp: saveWorkout_start_def Let_def split: option.splits)

lemma saveWorkout_update:
  "saveWorkout_start s tmp = Inr (s1, q, p) \<Longrightarrow> truthy_str (editingId s) \<Longrightarrow> editingId s = Some e \<Longrightarrow>
     rows s1 = map_by_id w_id e ((clean_workout (draft s))\<lparr>w_id := Some e\<rparr>) (rows s) \<and>
     p = PendingUpdate e (find (\<lambda>r. w_id r = Some e) (rows s))"
  by (auto simp: saveWorkout_start_def Let_def split: option.splits)

lemma create_order:
  assumes srt: "sorted_by_date_desc (rows s)"
    and st: "saveWorkout_start s tmp = Inr (s1, q, p)" and cr: "\<not> truthy_str (editingId s)"
  shows "(sorted_by_date_desc (rows s1) \<longleftrightarrow> (\<forall>x\<in>set (rows s). w_date x \<le> w_date (draft s))) \<and>
         (\<forall>m s2 fx. error r = Some m \<and> saveWorkout_finish today s1 p r = Some (s2, fx) \<longrightarrow>
            sorted_by_date_desc (rows s2)) \<and>
         (\<forall>d s2 fx. error r = None \<and> data r = Some d \<and> Some tmp \<notin> w_id ` set (rows s) \<and>
            saveWorkout_finish today s1 p r = Some (s2, fx) \<longrightarrow>
            rows s2 = d # rows s \<and>
            (sorted_by_date_desc (rows s2) \<longleftrightarrow> (\<forall>x\<in>set (rows s). w_date x \<le> w_date d)))"
proof (intro conjI allI impI)
  note c = saveWorkout_create[OF st cr]
  show "sorted_by_date_desc (rows s1) \<longleftrightarrow> (\<forall>x\<in>set (rows s). w_date x \<le> w_date (draft s))"
    using srt c by (simp add: sorted_by_date_desc_Cons clean_workout_date)
  {
    fix m s2 fx
    assume "error r = Some m \<and> saveWorkout_finish today s1 p r = Some (s2, fx)"
    then have "rows s2 = remove_by_id w_id tmp (rows s1)"
      using c by (auto simp: saveWorkout_finish_def Let_def)
    then show "sorted_by_date_desc (rows s2)"
      using srt c by (simp add: remove_by_id_def sorted_by_date_desc_def sorted_wrt_filter)
  }
  {
    fix d s2 fx
    assume a: "error r = None \<and> data r = Some d \<and> Some tmp \<notin> w_id ` set (rows s) \<and>
            saveWorkout_finish today s1 p r = Some (s2, fx)"
    then have "\<forall>x\<in>set (rows s). w_id x \<noteq> Some tmp"
      by (metis imageI)
    then have "map_by_id w_id tmp d (rows s) = rows s"
      by (rule map_by_id_absent)
    then show eq: "rows s2 = d # rows s"
      using a c by (auto simp: saveWorkout_finish_def Let_def map_by_id_opt_def map_by_id_def)
    show "sorted_by_date_desc (rows s2) \<longleftrightarrow> (\<forall>x\<in>set (rows s). w_date x \<le> w_date d)"
      using srt by (simp add: eq sorted_by_date_desc_Cons)
  }
qed

lemma update_order:
  assumes srt: "sorted_by_date_desc (rows s)"
    and st: "saveWorkout_start s tmp = Inr (s1, q, p)"
    and up: "truthy_str (editingId s)" and e: "editingId s = Some e"
  shows "(sorted_by_date_desc (rows s1) \<longleftrightarrow>
            sorted_wrt (\<lambda>a b. b \<le> a)
              (map (\<lambda>x. if w_id x = Some e then w_date (draft s) else w_date x) (rows s))) \<and>
         ((\<forall>x\<in>set (rows s). w_id x = Some e \<longrightarrow> w_date x = w_date (draft s)) \<longrightarrow>
            sorted_by_date_desc (rows s1)) \<and>
         (\<forall>s2 fx. error r = None \<and> saveWorkout_finish today s1 p r = Some (s2, fx) \<longrightarrow>
            rows s2 = rows s1) \<and>
         (\<forall>m s2 fx. error r = Some m \<and> ids_distinct w_id (rows s) \<and>
            saveWorkout_finish today s1 p r = Some (s2, fx) \<longrightarrow>
            rows s2 = rows s \<and> sorted_by_date_desc (rows s2))"
proof (intro conjI allI impI)
  note u = saveWorkout_update[OF st up e]
  show iff: "sorted_by_date_desc (rows s1) \<longleftrightarrow>
            sorted_wrt (\<lambda>a b. b \<le> a)
              (map (\<lambda>x. if w_id x = Some e then w_date (draft s) else w_date x) (rows s))"
    using u by (simp add: sorted_by_date_desc_dates dates_map_by_id clean_workout_date cong: if_cong)
  {
    assume "\<forall>x\<in>set (rows s). w_id x = Some e \<longrightarrow> w_date x = w_date (draft s)"
    then have same: "map (\<lambda>x. if w_id x = Some e then w_date (draft s) else w_date x) (rows s) =
               map w_date (rows s)"
      by (intro map_cong refl) auto
    have "sorted_wrt (\<lambda>a b. b \<le> a) (map w_date (rows s))"
      using srt by (simp only: sorted_by_date_desc_dates)
    then show "sorted_by_date_desc (rows s1)"
      unfolding iff same .
  }
  {
    fix s2 fx
    assume "error r = None \<and> saveWorkout_finish today s1 p r = Some (s2, fx)"
    then show "rows s2 = rows s1"
      using u by (auto simp: saveWorkout_finish_def Let_def)
  }
  {
    fix m s2 fx
    assume a: "error r = Some m \<and> ids_distinct w_id (rows s) \<and>
            saveWorkout_finish today s1 p r = Some (s2, fx)"
    have "map_by_id_opt w_id e (find (\<lambda>r. w_id r = Some e) (rows s))
            (map_by_id w_id e ((clean_workout (draft s))\<lparr>w_id := Some e\<rparr>) (rows s)) = Some (rows s)"
      using a by (intro map_by_id_restore) simp_all
    then show r: "rows s2 = rows s"
      using a u by (auto simp: saveWorkout_finish_def Let_def)
    show "sorted_by_date_desc (rows s2)"
      using srt r by simp
  }
qed


text \<open>
  \<^verbatim>\<open>saveWorkout\<close> puts the optimistic record at the front whatever its date: from a sorted
  list, a draft dated before the sessions held gives a list that is not sorted.
\<close>

theorem create_breaks_date_order_counterexample:
  "sorted_by_date_desc (rows ex_state) \<and>
   saveWorkout_start ex_state ''t1'' =
     Inr (ex_state\<lparr>rows := [ex_draft\<lparr>w_id := Some ''t1'', w_rpe := None\<rparr>, ex_w1, ex_w2]\<rparr>,
          InsertWorkout (ex_draft\<lparr>w_user_id := Some ''u1'', w_rpe := None\<rparr>), PendingInsert ''t1'') \<and>
   map w_date (rows (ex_state\<lparr>rows := [ex_draft\<lparr>w_id := Some ''t1'', w_rpe := None\<rparr>, ex_w1, ex_w2]\<rparr>)) =
     [''2024-01-01'', ''2024-05-01'', ''2024-04-01''] \<and>
   \<not> sorted_by_date_desc
       (rows (ex_state\<lparr>rows := [ex_draft\<lparr>w_id := Some ''t1'', w_rpe := None\<rparr>, ex_w1, ex_w2]\<rparr>))"
  by (simp add: sorted_by_date_desc_def ex_state_def ex_w1_def ex_w2_def ex_draft_def
      saveWorkout_start_def clean_workout_def truthy_str_def num_or_def truthy_def Math_max_def Let_def)

text \<open>
  C5 (amended). After a load without error the list of sessions is the store's answer to
  the query ordered by date descending, and a failed load leaves the list as it was. From a
  list sorted by date descending: the optimistic removal of a delete and its rollback keep it
  sorted. After an optimistic create, and after its confirmation, which puts the store's
  record in its place, the list is sorted exactly when no session held is dated after the
  new record; the rollback of a failed create is sorted. After an optimistic update the
  list is sorted exactly when the dates, with the draft's date in the place of the edited
  session's, are descending, so always when the edit keeps the date; its confirmation
  leaves the list as the update made it, and the rollback of a failed update gives back the
  sorted list.
\<close>

theorem date_order_kept:
  "(load_ok rem db \<longrightarrow> rows (fst (fetchAll rem db s)) = answer_of (select_workouts rem db)) \<and>
   (\<not> load_ok rem db \<longrightarrow> rows (fst (fetchAll rem db s)) = rows s) \<and>
   (sorted_by_date_desc (rows s) \<longrightarrow>
      (\<forall>s1 q prev. deleteWorkout_start s confirmed i = Some (s1, q, prev) \<longrightarrow>
         sorted_by_date_desc (rows s1) \<and>
         sorted_by_date_desc (rows (fst (deleteWorkout_finish s1 prev err)))) \<and>
      (\<forall>s1 q p. saveWorkout_start s tmp = Inr (s1, q, p) \<and> \<not> truthy_str (editingId s) \<longrightarrow>
         (sorted_by_date_desc (rows s1) \<longleftrightarrow> (\<forall>x\<in>set (rows s). w_date x \<le> w_date (draft s))) \<and>
         (\<forall>m s2 fx. error r = Some m \<and> saveWorkout_finish today s1 p r = Some (s2, fx) \<longrightarrow>
            sorted_by_date_desc (rows s2)) \<and>
         (\<forall>d s2 fx. error r = None \<and> data r = Some d \<and> Some tmp \<notin> w_id ` set (rows s) \<and>
            saveWorkout_finish today s1 p r = Some (s2, fx) \<longrightarrow>
            rows s2 = d # rows s \<and>
            (sorted_by_date_desc (rows s2) \<longleftrightarrow> (\<forall>x\<in>set (rows s). w_date x \<le> w_date d)))) \<and>
      (\<forall>s1 q p e. saveWorkout_start s tmp = Inr (s1, q, p) \<and> truthy_str (editingId s) \<and>
           editingId s = Some e \<longrightarrow>
         (sorted_by_date_desc (rows s1) \<longleftrightarrow>
            sorted_wrt (\<lambda>a b. b \<le> a)
              (map (\<lambda>x. if w_id x = Some e then w_date (draft s) else w_date x) (rows s))) \<and>
         ((\<forall>x\<in>set (rows s). w_id x = Some e \<longrightarrow> w_date x = w_date (draft s)) \<longrightarrow>
            sorted_by_date_desc (rows s1)) \<and>
         (\<forall>s2 fx. error r = None \<and> saveWorkout_finish today s1 p r = Some (s2, fx) \<longrightarrow>
            rows s2 = rows s1) \<and>
         (\<forall>m s2 fx. error r = Some m \<and> ids_distinct w_id (rows s) \<and>
            saveWorkout_finish today s1 p r = Some (s2, fx) \<longrightarrow>
            rows s2 = rows s \<and> sorted_by_date_desc (rows s2))))"
proof (intro conjI impI)
  show "rows (fst (fetchAll rem db s)) = answer_of (select_workouts rem db)" if "load_ok rem db"
    using fetchAll_ok[OF that, of s] by simp
  show "rows (fst (fetchAll rem db s)) = rows s" if "\<not> load_ok rem db"
    using fetchAll_failed[OF that, of s] by auto
  assume srt: "sorted_by_date_desc (rows s)"
  show "\<forall>s1 q prev. deleteWorkout_start s confirmed i = Some (s1, q, prev) \<longrightarrow>
         sorted_by_date_desc (rows s1) \<and>
         sorted_by_date_desc (rows (fst (deleteWorkout_finish s1 prev err)))"
  proof (intro allI impI)
    fix s1 q prev
    assume d: "deleteWorkout_start s confirmed i = Some (s1, q, prev)"
    then have s1: "rows s1 = remove_by_id w_id i (rows s)" and prev: "prev = rows s"
      by (auto simp: deleteWorkout_start_def split: if_splits)
    have a: "sorted_by_date_desc (rows s1)"
      using srt s1 by (simp add: sorted_by_date_desc_remove)
    then have "sorted_by_date_desc (rows (fst (deleteWorkout_finish s1 prev err)))"
      using srt prev by (cases err) (simp_all add: deleteWorkout_finish_def)
    with a show "sorted_by_date_desc (rows s1) \<and>
         sorted_by_date_desc (rows (fst (deleteWorkout_finish s1 prev err)))"
      by simp
  qed
  show "\<forall>s1 q p. saveWorkout_start s tmp = Inr (s1, q, p) \<and> \<not> truthy_str (editingId s) \<longrightarrow>
         (sorted_by_date_desc (rows s1) \<longleftrightarrow> (\<forall>x\<in>set (rows s). w_date x \<le> w_date (draft s))) \<and>
         (\<forall>m s2 fx. error r = Some m \<and> saveWorkout_finish today s1 p r = Some (s2, fx) \<longrightarrow>
            sorted_by_date_desc (rows s2)) \<and>
         (\<forall>d s2 fx. error r = None \<and> data r = Some d \<and> Some tmp \<notin> w_id ` set (rows s) \<and>
            saveWorkout_finish today s1 p r = Some (s2, fx) \<longrightarrow>
            rows s2 = d # rows s \<and>
            (sorted_by_date_desc (rows s2) \<longleftrightarrow> (\<forall>x\<in>set (rows s). w_date x \<le> w_date d)))"
    using create_order[OF srt] by blast
  show "\<forall>s1 q p e. saveWorkout_start s tmp = Inr (s1, q, p) \<and> truthy_str (editingId s) \<and>
           editingId s = Some e \<longrightarrow>
         (sorted_by_date_desc (rows s1) \<longleftrightarrow>
            sorted_wrt (\<lambda>a b. b \<le> a)
              (map (\<lambda>x. if w_id x = Some e then w_date (draft s) else w_date x) (rows s))) \<and>
         ((\<forall>x\<in>set (rows s). w_id x = Some e \<longrightarrow> w_date x = w_date (draft s)) \<longrightarrow>
            sorted_by_date_desc (rows s1)) \<and>
         (\<forall>s2 fx. error r = None \<and> saveWorkout_finish today s1 p r = Some (s2, fx) \<longrightarrow>
            rows s2 = rows s1) \<and>
         (\<forall>m s2 fx. error r = Some m \<and> ids_distinct w_id (rows s) \<and>
            saveWorkout_finish today s1 p r = Some (s2, fx) \<longrightarrow>
            rows s2 = rows s \<and> sorted_by_date_desc (rows s2))"
    using update_order[OF srt] by blast
qed

theorem date_order_kept_witness:
  "load_ok ex_store [ex_row] \<and>
   rows (fst (fetchAll ex_store [ex_row] ex_state)) = [stored_workout (0, ex_row)] \<and>
   sorted_by_date_desc (rows ex_state) \<and>
   deleteWorkout_start ex_state True ''a1'' =
     Some (ex_state\<lparr>rows := [ex_w2]\<rparr>, DeleteWorkout ''a1'', [ex_w1, ex_w2]) \<and>
   sorted_by_date_desc (rows (ex_state\<lparr>rows := [ex_w2]\<rparr>)) \<and>
   sorted_by_date_desc
     (rows (fst (deleteWorkout_finish (ex_state\<lparr>rows := [ex_w2]\<rparr>) [ex_w1, ex_w2] (Some ''denied'')))) \<and>
   saveWorkout_start (ex_state\<lparr>draft := ex_draft\<lparr>w_date := ''2024-06-01''\<rparr>\<rparr>) ''t1'' =
     Inr (ex_state\<lparr>draft := ex_draft\<lparr>w_date := ''2024-06-01''\<rparr>,
            rows := [ex_draft\<lparr>w_date := ''2024-06-01'', w_id := Some ''t1'', w_rpe := None\<rparr>, ex_w1, ex_w2]\<rparr>,
          InsertWorkout (ex_draft\<lparr>w_date := ''2024-06-01'', w_user_id := Some ''u1'', w_rpe := None\<rparr>),
          PendingInsert ''t1'') \<and>
   w_date ex_w1 \<le> ''2024-06-01'' \<and> w_date ex_w2 \<le> ''2024-06-01'' \<and>
   sorted_by_date_desc
     [ex_draft\<lparr>w_date := ''2024-06-01'', w_id := Some ''t1'', w_rpe := None\<rparr>, ex_w1, ex_w2] \<and>
   saveWorkout_start (ex_state\<lparr>editingId := Some ''a2'', draft := ex_edit\<rparr>) ''t1'' =
     Inr (ex_state\<lparr>editingId := Some ''a2'', draft := ex_edit,
            rows := [ex_w1, ex_w2\<lparr>w_date := ''2024-05-20''\<rparr>]\<rparr>,
          UpdateWorkout (ex_w2\<lparr>w_date := ''2024-05-20''\<rparr>) ''a2'',
          PendingUpdate ''a2'' (Some ex_w2)) \<and>
   \<not> sorted_by_date_desc [ex_w1, ex_w2\<lparr>w_date := ''2024-05-20''\<rparr>]"
proof -
  let ?s = "ex_state\<lparr>draft := ex_draft\<lparr>w_date := ''2024-06-01''\<rparr>\<rparr>"
  let ?s1 = "ex_state\<lparr>draft := ex_draft\<lparr>w_date := ''2024-06-01''\<rparr>,
            rows := [ex_draft\<lparr>w_date := ''2024-06-01'', w_id := Some ''t1'', w_rpe := None\<rparr>, ex_w1, ex_w2]\<rparr>"
  let ?u = "ex_state\<lparr>editingId := Some ''a2'', draft := ex_edit\<rparr>"
  let ?u1 = "ex_state\<lparr>editingId := Some ''a2'', draft := ex_edit,
            rows := [ex_w1, ex_w2\<lparr>w_date := ''2024-05-20''\<rparr>]\<rparr>"
  note inst = date_order_kept
      [where rem = ex_store and confirmed = True and i = "''a1''" and err = "Some ''denied''"
         and tmp = "''t1''" and r = "\<lparr>data = None, error = None\<rparr>" and today = "''2024-06-01''"]
  have ok: "load_ok ex_store [ex_row]"
    by (simp add: load_ok_def ex_store_def)
  have ans: "answer_of (select_workouts ex_store [ex_row]) = [stored_workout (0, ex_row)]"
    by (simp add: answer_of_def ex_store_def)
  have load: "rows (fst (fetchAll ex_store [ex_row] ex_state)) = [stored_workout (0, ex_row)]"
    using inst [where s = ex_state and db = "[ex_row]"] ok ans by simp
  have srt: "sorted_by_date_desc (rows ex_state)" and srt': "sorted_by_date_desc (rows ?s)"
    and srtu: "sorted_by_date_desc (rows ?u)"
    by (simp_all add: sorted_by_date_desc_def ex_state_def ex_w1_def ex_w2_def)
  have del: "deleteWorkout_start ex_state True ''a1'' =
     Some (ex_state\<lparr>rows := [ex_w2]\<rparr>, DeleteWorkout ''a1'', [ex_w1, ex_w2])"
    by (simp add: deleteWorkout_start_def remove_by_id_def ex_state_def ex_w1_def ex_w2_def)
  note at_ex = inst [where s = ex_state and db = "[]", THEN conjunct2, THEN conjunct2, THEN mp, OF srt]
  have dl: "sorted_by_date_desc (rows (ex_state\<lparr>rows := [ex_w2]\<rparr>)) \<and>
     sorted_by_date_desc
       (rows (fst (deleteWorkout_finish (ex_state\<lparr>rows := [ex_w2]\<rparr>) [ex_w1, ex_w2] (Some ''denied''))))"
    by (rule at_ex [THEN conjunct1, rule_format, OF del])
  have ned: "\<not> truthy_str (editingId ?s)"
    by (simp add: truthy_str_def ex_state_def)
  have dates: "w_date ex_w1 \<le> ''2024-06-01''" "w_date ex_w2 \<le> ''2024-06-01''"
    by (simp_all add: ex_w1_def ex_w2_def)
  have cr: "saveWorkout_start ?s ''t1'' =
     Inr (?s1, InsertWorkout (ex_draft\<lparr>w_date := ''2024-06-01'', w_user_id := Some ''u1'', w_rpe := None\<rparr>),
          PendingInsert ''t1'')"
    by (simp add: ex_defs crud_defs)
  have all: "\<forall>x\<in>set (rows ?s). w_date x \<le> w_date (draft ?s)"
    using dates by (simp add: ex_state_def)
  note at_s = inst [where s = ?s and db = "[]", THEN conjunct2, THEN conjunct2, THEN mp, OF srt']
  have crs: "sorted_by_date_desc (rows ?s1)"
    using at_s [THEN conjunct2, THEN conjunct1, rule_format, OF conjI [OF cr ned], THEN conjunct1] all
    by simp
  have ed: "truthy_str (editingId ?u)" "editingId ?u = Some ''a2''"
    by (simp_all add: truthy_str_def ex_state_def)
  have up: "saveWorkout_start ?u ''t1'' =
     Inr (?u1, UpdateWorkout (ex_w2\<lparr>w_date := ''2024-05-20''\<rparr>) ''a2'',
          PendingUpdate ''a2'' (Some ex_w2))"
    by (simp add: ex_defs crud_defs ex_edit_def)
  have bad: "\<not> sorted_wrt (\<lambda>a b. b \<le> a)
      (map (\<lambda>x. if w_id x = Some ''a2'' then w_date (draft ?u) else w_date x) (rows ?u))"
    by (simp add: ex_defs ex_edit_def)
  note at_u = inst [where s = ?u and db = "[]", THEN conjunct2, THEN conjunct2, THEN mp, OF srtu]
  have ups: "\<not> sorted_by_date_desc (rows ?u1)"
    using at_u [THEN conjunct2, THEN conjunct2, rule_format, OF conjI [OF up conjI [OF ed]],
        THEN conjunct1] bad
    by simp
  show ?thesis
    using ok load srt del dl cr dates crs up ups by simp
qed


subsection \<open>C6: the filtered page\<close>


lemma lower_char_idem: "lower_char (lower_char c) = lower_char c"
  unfolding lower_char_def by simp

lemma toLowerCase_Nil_iff: "toLowerCase s = [] \<longleftrightarrow> s = []"
  by (simp add: toLowerCase_def)

lemma slice_take_drop: "slice xs (p * n) (p * n + n) = take n (drop (p * n) xs)"
  by (simp add: slice_def)

lemma row_matches_lower:
  assumes "toLowerCase (w_date r) = w_date r"
    and "toLowerCase (toStr (w_distance_m r)) = toStr (w_distance_m r)"
    and "toLowerCase (toStr (w_duration_min r)) = toStr (w_duration_min r)"
  shows "row_matches toStr (toLowerCase q) r = matches_query toStr q r"
  using assms by (simp add: row_matches_def matches_query_def ci_contains_def)

lemma filtered_eq_view:
  assumes "\<forall>r\<in>set rs. toLowerCase (w_date r) = w_date r \<and>
             toLowerCase (toStr (w_distance_m r)) = toStr (w_distance_m r) \<and>
             toLowerCase (toStr (w_duration_min r)) = toStr (w_duration_min r)"
  shows "filtered toStr rs query page = view_spec toStr rs (trim query) page"
proof -
  have "filter (row_matches toStr (toLowerCase (trim query))) rs =
        filter (matches_query toStr (trim query)) rs"
    using assms by (intro filter_cong refl) (simp add: row_matches_lower)
  then show ?thesis
    by (simp add: filtered_def view_spec_def Let_def toLowerCase_Nil_iff slice_take_drop)
qed

lemma filtered_shape:
  "filtered toStr rs query page =
     take 50 (drop (page * 50)
       (if trim query = [] then rs else filter (row_matches toStr (toLowerCase (trim query))) rs))"
  by (simp add: filtered_def Let_def toLowerCase_Nil_iff slice_take_drop)

lemma subseq_take_drop: "subseq (take n (drop k xs)) xs"
proof -
  have "sublist (take n (drop k xs)) (drop k xs)" and "sublist (drop k xs) xs"
    by simp_all
  then have "sublist (take n (drop k xs)) xs"
    by (rule sublist_order.order_trans)
  then show ?thesis
    by (rule sublist_imp_subseq)
qed

lemma subseq_trans': "subseq xs ys \<Longrightarrow> subseq ys zs \<Longrightarrow> subseq xs zs"
  by (rule subseq_order.order_trans)

lemma filtered_subseq: "subseq (filtered toStr rs query page) rs"
proof (cases "trim query = []")
  case True
  then show ?thesis
    by (simp add: filtered_shape subseq_take_drop)
next
  case False
  have "subseq (filtered toStr rs query page)
          (filter (row_matches toStr (toLowerCase (trim query))) rs)"
    using False by (simp add: filtered_shape subseq_take_drop)
  then show ?thesis
    by (rule subseq_trans') simp
qed

lemma filtered_length: "length (filtered toStr rs query page) \<le> 50"
  by (simp add: filtered_shape)

lemma filtered_out_of_range:
  "length (if trim query = [] then rs else filter (row_matches toStr (toLowerCase (trim query))) rs)
     \<le> page * 50 \<Longrightarrow> filtered toStr rs query page = []"
  by (simp add: filtered_shape)

lemmas view_defs = filtered_def view_spec_def Let_def slice_def trim_def is_space_def toLowerCase_def
      lower_char_def row_matches_def matches_query_def ci_contains_def includes_str_def
      sublist_code ex_w1_def ex_w2_def String_whole_def

text \<open>
  The query is trimmed before it is compared: with a trailing space, \<^verbatim>\<open>"fly "\<close> finds the
  session whose stroke is \<^verbatim>\<open>Fly\<close>, though no field contains \<^verbatim>\<open>"fly "\<close>.
\<close>

theorem filtered_trailing_space_counterexample:
  "filtered String_whole [ex_w1] ''fly '' 0 = [ex_w1] \<and>
   view_spec String_whole [ex_w1] ''fly '' 0 = []"
  by (simp add: view_defs)

text \<open>
  C6 (amended). For records whose date and rendered distance and duration have no capital
  letter (dates \<^verbatim>\<open>YYYY-MM-DD\<close>, finite numbers), the view is the slice
  \<open>[page * 50, page * 50 + 50)\<close> of the records of which one of the five fields contains,
  without regard to case, the query with the white space at its ends removed, in their
  original order; a query that is empty once trimmed filters nothing, and a page beyond
  the matches is empty.
\<close>

theorem filtered_view:
  "(\<forall>r\<in>set rs. toLowerCase (w_date r) = w_date r \<and>
       toLowerCase (toStr (w_distance_m r)) = toStr (w_distance_m r) \<and>
       toLowerCase (toStr (w_duration_min r)) = toStr (w_duration_min r)) \<longrightarrow>
   filtered toStr rs query page = view_spec toStr rs (trim query) page \<and>
   subseq (filtered toStr rs query page) rs \<and>
   length (filtered toStr rs query page) \<le> 50 \<and>
   (length (if trim query = [] then rs else filter (matches_query toStr (trim query)) rs)
      \<le> page * 50 \<longrightarrow> filtered toStr rs query page = [])"
proof (intro impI conjI)
  assume low: "\<forall>r\<in>set rs. toLowerCase (w_date r) = w_date r \<and>
       toLowerCase (toStr (w_distance_m r)) = toStr (w_distance_m r) \<and>
       toLowerCase (toStr (w_duration_min r)) = toStr (w_duration_min r)"
  show eq: "filtered toStr rs query page = view_spec toStr rs (trim query) page"
    using low by (rule filtered_eq_view)
  show "subseq (filtered toStr rs query page) rs"
    by (rule filtered_subseq)
  show "length (filtered toStr rs query page) \<le> 50"
    by (rule filtered_length)
  assume "length (if trim query = [] then rs else filter (matches_query toStr (trim query)) rs)
      \<le> page * 50"
  then show "filtered toStr rs query page = []"
    unfolding eq by (simp add: view_spec_def)
qed

theorem filtered_view_witness:
  "toLowerCase (w_date ex_w1) = w_date ex_w1 \<and>
   toLowerCase (String_whole (w_distance_m ex_w1)) = String_whole (w_distance_m ex_w1) \<and>
   toLowerCase (String_whole (w_duration_min ex_w1)) = String_whole (w_duration_min ex_w1) \<and>
   toLowerCase (w_date ex_w2) = w_date ex_w2 \<and>
   toLowerCase (String_whole (w_distance_m ex_w2)) = String_whole (w_distance_m ex_w2) \<and>
   toLowerCase (String_whole (w_duration_min ex_w2)) = String_whole (w_duration_min ex_w2) \<and>
   filtered String_whole [ex_w1, ex_w2] '' FLY '' 0 = [ex_w1] \<and>
   view_spec String_whole [ex_w1, ex_w2] (trim '' FLY '') 0 = [ex_w1]"
proof -
  have low: "toLowerCase (w_date ex_w1) = w_date ex_w1 \<and>
     toLowerCase (String_whole (w_distance_m ex_w1)) = String_whole (w_distance_m ex_w1) \<and>
     toLowerCase (String_whole (w_duration_min ex_w1)) = String_whole (w_duration_min ex_w1) \<and>
     toLowerCase (w_date ex_w2) = w_date ex_w2 \<and>
     toLowerCase (String_whole (w_distance_m ex_w2)) = String_whole (w_distance_m ex_w2) \<and>
     toLowerCase (String_whole (w_duration_min ex_w2)) = String_whole (w_duration_min ex_w2)"
    by (simp add: view_defs)
  then have all: "\<forall>r\<in>set [ex_w1, ex_w2]. toLowerCase (w_date r) = w_date r \<and>
       toLowerCase (String_whole (w_distance_m r)) = String_whole (w_distance_m r) \<and>
       toLowerCase (String_whole (w_duration_min r)) = String_whole (w_duration_min r)"
    by simp
  have ev: "filtered String_whole [ex_w1, ex_w2] '' FLY '' 0 = [ex_w1]"
    by (simp add: view_defs)
  have "filtered String_whole [ex_w1, ex_w2] '' FLY '' 0 =
        view_spec String_whole [ex_w1, ex_w2] (trim '' FLY '') 0"
    using filtered_view [of "[ex_w1, ex_w2]" String_whole "'' FLY ''" 0] all by blast
  with low ev show ?thesis
    by simp
qed

subsection \<open>C7: the import submits batches of 500 in order\<close>


declare chunks.simps [simp del] onRows_loop.simps [simp del]

lemma chunks_Nil: "chunks n [] = []"
  by (simp add: chunks.simps)

lemma chunks_step: "0 < n \<Longrightarrow> xs \<noteq> [] \<Longrightarrow> chunks n xs = take n xs # chunks n (drop n xs)"
  by (subst chunks.simps) simp

lemma concat_chunks: "0 < n \<Longrightarrow> concat (chunks n xs) = xs"
proof (induction n xs rule: chunks.induct)
  case (1 n xs)
  show ?case
  proof (cases "xs = []")
    case True
    then show ?thesis by (simp add: chunks_Nil)
  next
    case False
    then show ?thesis
      using 1 by (simp add: chunks_step)
  qed
qed

lemma chunks_length: "b \<in> set (chunks n xs) \<Longrightarrow> 0 < length b \<and> length b \<le> n"
proof (induction n xs rule: chunks.induct)
  case (1 n xs)
  show ?case
  proof (cases "n = 0 \<or> xs = []")
    case True
    then show ?thesis
      using "1.prems" by (subst (asm) chunks.simps) simp
  next
    case False
    then have "chunks n xs = take n xs # chunks n (drop n xs)"
      by (simp add: chunks_step)
    then show ?thesis
      using 1 False by auto
  qed
qed

lemma chunks_full: "b \<in> set (butlast (chunks n xs)) \<Longrightarrow> length b = n"
proof (induction n xs rule: chunks.induct)
  case (1 n xs)
  show ?case
  proof (cases "n = 0 \<or> xs = []")
    case True
    then show ?thesis
      using "1.prems" by (subst (asm) chunks.simps) simp
  next
    case False
    then have step: "chunks n xs = take n xs # chunks n (drop n xs)"
      by (simp add: chunks_step)
    show ?thesis
    proof (cases "chunks n (drop n xs) = []")
      case True
      then show ?thesis
        using "1.prems" step by simp
    next
      case ne: False
      then have "drop n xs \<noteq> []"
        by (auto simp: chunks_Nil)
      then have "length (take n xs) = n"
        by simp
      then show ?thesis
        using 1 False step ne by auto
    qed
  qed
qed

lemma onRows_loop_chunks:
  "onRows_loop ins cleaned i db = submit_batches ins db (chunks 500 (drop i cleaned))"
proof (induction ins cleaned i db rule: onRows_loop.induct)
  case (1 ins cleaned i db)
  show ?case
  proof (cases "i < length cleaned")
    case False
    then show ?thesis
      by (subst onRows_loop.simps) (simp add: chunks_Nil)
  next
    case True
    then have ne: "drop i cleaned \<noteq> []"
      by simp
    have step: "chunks 500 (drop i cleaned) =
        slice cleaned i (i + 500) # chunks 500 (drop (i + 500) cleaned)"
      using ne by (simp add: chunks_step slice_def add.commute)
    show ?thesis
    proof (cases "ins db (slice cleaned i (i + 500))")
      case (Inl m)
      then show ?thesis
        using True by (subst onRows_loop.simps) (simp add: step)
    next
      case (Inr db')
      then show ?thesis
        using True 1[OF True refl Inr] by (subst onRows_loop.simps) (simp add: step)
    qed
  qed
qed

lemma submit_batches_prefix:
  "submit_batches ins db bs = (d, sent, a) \<Longrightarrow> prefix sent bs \<and> (a = None \<longrightarrow> sent = bs) \<and> (a \<noteq> None \<longrightarrow> sent \<noteq> [])"
proof (induction bs arbitrary: db d sent a)
  case Nil
  then show ?case by simp
next
  case (Cons b bs)
  show ?case
  proof (cases "ins db b")
    case (Inl m)
    then show ?thesis
      using Cons.prems by auto
  next
    case (Inr db')
    obtain d' sent' a' where rec: "submit_batches ins db' bs = (d', sent', a')"
      by (cases "submit_batches ins db' bs") auto
    then show ?thesis
      using Cons.prems Inr Cons.IH[OF rec] by auto
  qed
qed


lemma submit_batches_failed:
  "submit_batches ins db bs = (d, sent, Some m) \<Longrightarrow> ins d (last sent) = Inl m"
proof (induction bs arbitrary: db d sent)
  case Nil
  then show ?case by simp
next
  case (Cons b bs)
  show ?case
  proof (cases "ins db b")
    case (Inl e)
    then show ?thesis
      using Cons.prems by auto
  next
    case (Inr db')
    obtain d' sent' a' where rec: "submit_batches ins db' bs = (d', sent', a')"
      by (cases "submit_batches ins db' bs") auto
    have "sent' \<noteq> []"
      using submit_batches_prefix[OF rec] Cons.prems Inr rec by auto
    then show ?thesis
      using Cons.prems Inr rec Cons.IH[of db' d' sent'] by auto
  qed
qed

lemma submit_batches_committed:
  "submit_batches ins db bs = (d, sent, a) \<Longrightarrow>
     d = fold (\<lambda>b x. case ins x b of Inl m \<Rightarrow> x | Inr y \<Rightarrow> y) sent db"
proof (induction bs arbitrary: db d sent a)
  case Nil
  then show ?case by simp
next
  case (Cons b bs)
  show ?case
  proof (cases "ins db b")
    case (Inl e)
    then show ?thesis
      using Cons.prems by auto
  next
    case (Inr db')
    obtain d' sent' a' where rec: "submit_batches ins db' bs = (d', sent', a')"
      by (cases "submit_batches ins db' bs") auto
    then show ?thesis
      using Cons.prems Inr Cons.IH[OF rec] by auto
  qed
qed

lemma submit_batches_nonempty:
  "bs \<noteq> [] \<Longrightarrow> fst (snd (submit_batches ins db bs)) \<noteq> []"
  by (cases bs) (auto split: sum.splits prod.splits)

lemma chunks_nonempty: "xs \<noteq> [] \<Longrightarrow> chunks 500 xs \<noteq> []"
  by (simp add: chunks_step)

lemma onRows_signed_in:
  assumes "session s = Some uid"
  shows "onRows rem num today db s raw =
     (let res = submit_batches (insert_workouts rem) db
                  (chunks 500 (map (clean_import num today uid) raw));
          after = fetchAll rem (fst res) s
      in (fst res, fst after, fst (snd res),
          (case snd (snd res) of None \<Rightarrow> [] | Some m \<Rightarrow> [Alert m]) @ snd after))"
  using assms by (simp add: onRows_def onRows_loop_chunks Let_def split: prod.splits)



lemma ex_clean: "clean_import ex_Number today ''u1'' ex_csv = ex_row"
  by (simp add: clean_import_def ex_csv_def ex_row_def ex_Number_def to_number_def num_or_def
      truthy_def Math_max_def Math_min_def)

lemma ex_parse_header: "parseCSV ex_header = []"
  by (simp add: parseCSV_def split_lines_def ex_header_def)

lemma ex_parse_file: "parseCSV ex_file = [ex_csv]"
  by (simp add: parseCSV_def split_lines_def ex_file_def ex_header_def ex_csv_def strip_cr_def
      Let_def toLowerCase_def lower_char_def trim_def is_space_def at_index_def or_str_def
      or_zero_def truthy_str_def)

lemma ex_chunks:
  "chunks 500 (replicate 1200 x) = [replicate 500 x, replicate 500 x, replicate 200 x]"
  by (simp add: chunks_step chunks_Nil)

lemma ex_store_load: "load_ok ex_store db"
  by (simp add: load_ok_def ex_store_def)

lemma ex_store_answers:
  "answer_of (select_workouts ex_store (replicate 500 ex_row @ replicate 500 ex_row)) =
     map stored_workout (enumerate 0 (replicate 500 ex_row))"
  "answer_of (select_competitions ex_store db) = [ex_c1]"
  "answer_of (select_personal_bests ex_store db) = [ex_pb]"
  by (simp_all add: answer_of_def ex_store_def)

text \<open>
  C7. For a signed-in user, the import sends the cleaned rows as the consecutive pieces of
  500 rows (every piece but the last has exactly 500, the last between 1 and 500, and
  together they are the rows in order), one after the other on the store's state as the
  earlier pieces left it; it stops at the first piece the store refuses, alerts that
  message, and the store keeps what the pieces before it committed. Then, alert or not, it
  loads from the store as it is: when the three queries answer without error, the sessions,
  results and personal bests held are the store's answers, whatever was held before;
  when one fails, they stay as they were and that error is alerted.
\<close>

theorem import_in_batches:
  "session s = Some uid \<longrightarrow>
     (let cleaned = map (clean_import num today uid) raw;
          batches = chunks 500 cleaned;
          res = submit_batches (insert_workouts rem) db batches;
          db' = fst res;
          sent = fst (snd res);
          after = fetchAll rem db' s;
          final = fst (snd (onRows rem num today db s raw))
      in onRows rem num today db s raw =
           (db', fst after, sent,
            (case snd (snd res) of None \<Rightarrow> [] | Some m \<Rightarrow> [Alert m]) @ snd after) \<and>
         concat batches = cleaned \<and>
         (\<forall>b\<in>set batches. 0 < length b \<and> length b \<le> 500) \<and>
         (\<forall>b\<in>set (butlast batches). length b = 500) \<and>
         prefix sent batches \<and>
         (snd (snd res) = None \<longrightarrow> sent = batches) \<and>
         (\<forall>m. snd (snd res) = Some m \<longrightarrow>
            sent \<noteq> [] \<and> insert_workouts rem db' (last sent) = Inl m) \<and>
         db' =
           fold (\<lambda>b x. case insert_workouts rem x b of Inl m \<Rightarrow> x | Inr y \<Rightarrow> y) sent db \<and>
         (load_ok rem db' \<longrightarrow>
            rows final = answer_of (select_workouts rem db') \<and>
            comps final = answer_of (select_competitions rem db') \<and>
            pbs final = answer_of (select_personal_bests rem db') \<and>
            snd after = []) \<and>
         (\<not> load_ok rem db' \<longrightarrow>
            rows final = rows s \<and> comps final = comps s \<and> pbs final = pbs s \<and>
            (\<exists>m. snd after = [Alert m])))"
proof
  assume signed: "session s = Some uid"
  define cleaned where "cleaned = map (clean_import num today uid) raw"
  define res where "res = submit_batches (insert_workouts rem) db (chunks 500 cleaned)"
  define final where "final = fst (snd (onRows rem num today db s raw))"
  obtain d sent a where r: "submit_batches (insert_workouts rem) db (chunks 500 cleaned) = (d, sent, a)"
    by (cases "submit_batches (insert_workouts rem) db (chunks 500 cleaned)") auto
  have 1: "onRows rem num today db s raw =
           (fst res, fst (fetchAll rem (fst res) s), fst (snd res),
            (case snd (snd res) of None \<Rightarrow> [] | Some m \<Rightarrow> [Alert m]) @ snd (fetchAll rem (fst res) s))"
    using onRows_signed_in[OF signed, of rem num today db raw]
    by (simp add: Let_def res_def cleaned_def)
  have fin: "final = fst (fetchAll rem (fst res) s)"
    by (simp add: final_def 1)
  have 2: "concat (chunks 500 cleaned) = cleaned"
    by (simp add: concat_chunks)
  have 3: "\<forall>b\<in>set (chunks 500 cleaned). 0 < length b \<and> length b \<le> 500"
    using chunks_length by blast
  have 4: "\<forall>b\<in>set (butlast (chunks 500 cleaned)). length b = 500"
    using chunks_full by blast
  have 5: "prefix (fst (snd res)) (chunks 500 cleaned)"
    and 6: "snd (snd res) = None \<longrightarrow> fst (snd res) = chunks 500 cleaned"
    using submit_batches_prefix[OF r] by (simp_all add: res_def r)
  have 7: "\<forall>m. snd (snd res) = Some m \<longrightarrow>
            fst (snd res) \<noteq> [] \<and> insert_workouts rem (fst res) (last (fst (snd res))) = Inl m"
    using submit_batches_prefix[OF r] submit_batches_failed[of "insert_workouts rem" db "chunks 500 cleaned" d sent]
    by (auto simp: res_def r)
  have 8: "fst res =
           fold (\<lambda>b x. case insert_workouts rem x b of Inl m \<Rightarrow> x | Inr y \<Rightarrow> y) (fst (snd res)) db"
    using submit_batches_committed[OF r] by (simp add: res_def r)
  have 9: "load_ok rem (fst res) \<longrightarrow>
            rows final = answer_of (select_workouts rem (fst res)) \<and>
            comps final = answer_of (select_competitions rem (fst res)) \<and>
            pbs final = answer_of (select_personal_bests rem (fst res)) \<and>
            snd (fetchAll rem (fst res) s) = []"
    by (simp add: fin fetchAll_ok)
  have 10: "\<not> load_ok rem (fst res) \<longrightarrow>
            rows final = rows s \<and> comps final = comps s \<and> pbs final = pbs s \<and>
            (\<exists>m. snd (fetchAll rem (fst res) s) = [Alert m])"
    using fetchAll_failed[of rem "fst res" s] by (auto simp: fin)
  show "let cleaned = map (clean_import num today uid) raw;
          batches = chunks 500 cleaned;
          res = submit_batches (insert_workouts rem) db batches;
          db' = fst res;
          sent = fst (snd res);
          after = fetchAll rem db' s;
          final = fst (snd (onRows rem num today db s raw))
      in onRows rem num today db s raw =
           (db', fst after, sent,
            (case snd (snd res) of None \<Rightarrow> [] | Some m \<Rightarrow> [Alert m]) @ snd after) \<and>
         concat batches = cleaned \<and>
         (\<forall>b\<in>set batches. 0 < length b \<and> length b \<le> 500) \<and>
         (\<forall>b\<in>set (butlast batches). length b = 500) \<and>
         prefix sent batches \<and>
         (snd (snd res) = None \<longrightarrow> sent = batches) \<and>
         (\<forall>m. snd (snd res) = Some m \<longrightarrow>
            sent \<noteq> [] \<and> insert_workouts rem db' (last sent) = Inl m) \<and>
         db' =
           fold (\<lambda>b x. case insert_workouts rem x b of Inl m \<Rightarrow> x | Inr y \<Rightarrow> y) sent db \<and>
         (load_ok rem db' \<longrightarrow>
            rows final = answer_of (select_workouts rem db') \<and>
            comps final = answer_of (select_competitions rem db') \<and>
            pbs final = answer_of (select_personal_bests rem db') \<and>
            snd after = []) \<and>
         (\<not> load_ok rem db' \<longrightarrow>
            rows final = rows s \<and> comps final = comps s \<and> pbs final = pbs s \<and>
            (\<exists>m. snd after = [Alert m]))"
    unfolding Let_def cleaned_def[symmetric] res_def[symmetric] final_def[symmetric]
    using 1 2 3 4 5 6 7 8 9 10 by (intro conjI)
qed

theorem import_in_batches_witness:
  "session ex_state = Some ''u1'' \<and>
   onRows ex_store ex_Number ''2024-06-01'' [] ex_state (replicate 1200 ex_csv) =
     (replicate 500 ex_row @ replicate 500 ex_row,
      ex_state\<lparr>rows := map stored_workout (enumerate 0 (replicate 500 ex_row)),
                comps := [ex_c1], pbs := [ex_pb], loading := False\<rparr>,
      [replicate 500 ex_row, replicate 500 ex_row, replicate 200 ex_row],
      [Alert ''quota exceeded'']) \<and>
   rows (fst (snd (onRows ex_store ex_Number ''2024-06-01'' [] ex_state (replicate 1200 ex_csv)))) =
     map stored_workout (enumerate 0 (replicate 500 ex_row)) \<and>
   length (rows (fst (snd (onRows ex_store ex_Number ''2024-06-01'' [] ex_state (replicate 1200 ex_csv))))) = 500 \<and>
   rows ex_state = [ex_w1, ex_w2] \<and>
   pbs (fst (snd (onRows ex_store ex_Number ''2024-06-01'' [] ex_state (replicate 1200 ex_csv)))) = [ex_pb] \<and>
   pbs ex_state = []"
proof -
  have signed: "session ex_state = Some ''u1''"
    by (simp add: ex_state_def)
  have sub: "submit_batches (insert_workouts ex_store) []
               [replicate 500 ex_row, replicate 500 ex_row, replicate 200 ex_row] =
             (replicate 500 ex_row @ replicate 500 ex_row,
              [replicate 500 ex_row, replicate 500 ex_row, replicate 200 ex_row],
              Some ''quota exceeded'')"
    by (simp add: ex_store_def)
  have held: "rows ex_state = [ex_w1, ex_w2]" "pbs ex_state = []"
    by (simp_all add: ex_state_def)
  note inst = import_in_batches
      [where s = ex_state and uid = "''u1''" and num = ex_Number and today = "''2024-06-01''"
         and raw = "replicate 1200 ex_csv" and rem = ex_store and db = "[]", THEN mp, OF signed]
  have out: "onRows ex_store ex_Number ''2024-06-01'' [] ex_state (replicate 1200 ex_csv) =
     (replicate 500 ex_row @ replicate 500 ex_row,
      ex_state\<lparr>rows := map stored_workout (enumerate 0 (replicate 500 ex_row)),
                comps := [ex_c1], pbs := [ex_pb], loading := False\<rparr>,
      [replicate 500 ex_row, replicate 500 ex_row, replicate 200 ex_row],
      [Alert ''quota exceeded''])"
    using inst
    by (simp add: Let_def ex_clean ex_chunks sub fetchAll_ok ex_store_load ex_store_answers
        del: submit_batches.simps)
  show ?thesis
    using signed held by (simp add: out)
qed


subsection \<open>C8: a file without data rows\<close>
lemma parseCSV_length:
  "length (parseCSV t) = length (filter (\<lambda>l. l \<noteq> []) (split_lines t)) - 1"
  by (simp add: parseCSV_def Let_def split: list.splits)

text \<open>
  C8. The import alerts \<^verbatim>\<open>"No rows found..."\<close> exactly when \<^verbatim>\<open>parseCSV\<close> gives no row,
  which is when the text has at most one non-empty line (a header alone); then nothing is
  sent and neither the store nor the state changes. With at least one row, \<^verbatim>\<open>onRows\<close> is
  run on the rows, and for a signed-in user it sends at least one batch.
\<close>

theorem import_no_rows:
  "(CSVImport_onload f t = Inl ''No rows found. Ensure your CSV has a header row.'' \<longleftrightarrow> parseCSV t = []) \<and>
   (parseCSV t = [] \<longleftrightarrow> length (filter (\<lambda>l. l \<noteq> []) (split_lines t)) \<le> 1) \<and>
   (parseCSV t = [] \<longrightarrow>
      import_csv rem num today db s t =
        (db, s, [], [Alert ''No rows found. Ensure your CSV has a header row.''])) \<and>
   (parseCSV t \<noteq> [] \<longrightarrow>
      CSVImport_onload f t = Inr (f (parseCSV t)) \<and>
      import_csv rem num today db s t = onRows rem num today db s (parseCSV t) \<and>
      (session s \<noteq> None \<longrightarrow> fst (snd (snd (import_csv rem num today db s t))) \<noteq> []))"
proof (intro conjI impI)
  show "(CSVImport_onload f t = Inl ''No rows found. Ensure your CSV has a header row.'') = (parseCSV t = [])"
    by (simp add: CSVImport_onload_def Let_def)
  show "(parseCSV t = []) = (length (filter (\<lambda>l. l \<noteq> []) (split_lines t)) \<le> 1)"
    using parseCSV_length[of t] by (metis length_0_conv diff_is_0_eq)
  show "import_csv rem num today db s t =
        (db, s, [], [Alert ''No rows found. Ensure your CSV has a header row.''])"
    if "parseCSV t = []"
    using that by (simp add: import_csv_def CSVImport_onload_def)
  show "CSVImport_onload f t = Inr (f (parseCSV t))" if "parseCSV t \<noteq> []"
    using that by (simp add: CSVImport_onload_def Let_def)
  show imp: "import_csv rem num today db s t = onRows rem num today db s (parseCSV t)"
    if "parseCSV t \<noteq> []"
    using that by (simp add: import_csv_def CSVImport_onload_def Let_def)
  show "fst (snd (snd (import_csv rem num today db s t))) \<noteq> []"
    if ne: "parseCSV t \<noteq> []" and signed: "session s \<noteq> None"
  proof -
    obtain uid where uid: "session s = Some uid"
      using signed by auto
    have "chunks 500 (map (clean_import num today uid) (parseCSV t)) \<noteq> []"
      using ne by (simp add: chunks_nonempty)
    then show ?thesis
      using submit_batches_nonempty[of _ "insert_workouts rem" db]
      by (simp add: imp[OF ne] onRows_signed_in[OF uid] Let_def)
  qed
qed

theorem import_no_rows_witness:
  "parseCSV ex_header = [] \<and>
   length (filter (\<lambda>l. l \<noteq> []) (split_lines ex_header)) \<le> 1 \<and>
   import_csv ex_remote ex_Number ''2024-06-01'' [] ex_state ex_header =
     ([], ex_state, [], [Alert ''No rows found. Ensure your CSV has a header row.'']) \<and>
   parseCSV ex_file = [ex_csv] \<and> session ex_state \<noteq> None \<and>
   fst (snd (snd (import_csv ex_remote ex_Number ''2024-06-01'' [] ex_state ex_file))) \<noteq> []"
proof -
  have signed: "session ex_state \<noteq> None"
    by (simp add: ex_state_def)
  have ne: "parseCSV ex_file \<noteq> []"
    by (simp add: ex_parse_file)
  have none: "length (filter (\<lambda>l. l \<noteq> []) (split_lines ex_header)) \<le> 1 \<and>
      import_csv ex_remote ex_Number ''2024-06-01'' [] ex_state ex_header =
        ([], ex_state, [], [Alert ''No rows found. Ensure your CSV has a header row.''])"
    using import_no_rows
      [where t = ex_header and rem = ex_remote and num = ex_Number and today = "''2024-06-01''"
         and db = "[]" and s = ex_state and f = "\<lambda>x. x"] ex_parse_header
    by blast
  have some: "fst (snd (snd (import_csv ex_remote ex_Number ''2024-06-01'' [] ex_state ex_file))) \<noteq> []"
    using import_no_rows
      [where t = ex_file and rem = ex_remote and num = ex_Number and today = "''2024-06-01''"
         and db = "[]" and s = ex_state and f = "\<lambda>x. x"] ne signed
    by blast
  show ?thesis
    using none some signed ex_parse_header ex_parse_file by simp
qed


subsection \<open>C9: create puts the cleaned draft first\<close>

text \<open>
  C9. For a signed-in user and a draft that is not an edit, \<^verbatim>\<open>saveWorkout\<close> and
  \<^verbatim>\<open>saveCompetition\<close> leave the collection with the cleaned draft under the temporary id as
  first element, before the store answers, and send the cleaned draft with the user's id:
  it has the id of the draft, that is none.
\<close>

theorem create_puts_draft_first:
  "(session s = Some u \<and> \<not> truthy_str (editingId s) \<and> w_id (draft s) = None \<longrightarrow>
      (\<exists>s1 payload. saveWorkout_start s tmp = Inr (s1, InsertWorkout payload, PendingInsert tmp) \<and>
         rows s1 = (clean_workout (draft s))\<lparr>w_id := Some tmp\<rparr> # rows s \<and>
         payload = (clean_workout (draft s))\<lparr>w_user_id := Some u\<rparr> \<and>
         w_id payload = None)) \<and>
   (session s = Some u \<and> \<not> truthy_str (ceditingId s) \<and> c_id (cdraft s) = None \<longrightarrow>
      (\<exists>s1 payload. saveCompetition_start s tmp = Inr (s1, InsertCompetition payload, PendingInsert tmp) \<and>
         comps s1 = (clean_competition (cdraft s))\<lparr>c_id := Some tmp\<rparr> # comps s \<and>
         payload = (clean_competition (cdraft s))\<lparr>c_user_id := Some u\<rparr> \<and>
         c_id payload = None))"
  by (auto simp: saveWorkout_start_def saveCompetition_start_def Let_def clean_workout_def
      clean_competition_def)

theorem create_puts_draft_first_witness:
  "session ex_state = Some ''u1'' \<and> \<not> truthy_str (editingId ex_state) \<and> w_id (draft ex_state) = None \<and>
   \<not> truthy_str (ceditingId ex_state) \<and> c_id (cdraft ex_state) = None \<and>
   (\<exists>s1 payload. saveWorkout_start ex_state ''t1'' = Inr (s1, InsertWorkout payload, PendingInsert ''t1'') \<and>
      rows s1 = [ex_draft\<lparr>w_id := Some ''t1'', w_rpe := None\<rparr>, ex_w1, ex_w2] \<and>
      payload = ex_draft\<lparr>w_user_id := Some ''u1'', w_rpe := None\<rparr>) \<and>
   (\<exists>s1 payload. saveCompetition_start ex_state ''t1'' = Inr (s1, InsertCompetition payload, PendingInsert ''t1'') \<and>
      comps s1 = [ex_cdraft\<lparr>c_id := Some ''t1'', c_distance_m := Fin 50, c_time_sec := Fin 40\<rparr>, ex_c1] \<and>
      payload = ex_cdraft\<lparr>c_user_id := Some ''u1'', c_distance_m := Fin 50, c_time_sec := Fin 40\<rparr>)"
  using create_puts_draft_first [of ex_state "''u1''" "''t1''"]
  by (simp add: ex_defs crud_defs)

subsection \<open>C10: a failed personal-bests refresh leaves the collection alone\<close>

text \<open>
  C10. Whenever the personal-bests fetch reports an error, \<^verbatim>\<open>refreshPBs\<close> returns the state
  it was given (so the personal bests, and everything else, are unchanged), whatever data the
  response carries; when the fetch reports no error, the collection becomes the fetched
  list (the empty list if the data is null).
\<close>

theorem refreshPBs_error_keeps:
  "(error r \<noteq> None \<longrightarrow> refreshPBs s r = s) \<and>
   (error r = None \<longrightarrow> pbs (refreshPBs s r) = (case data r of None \<Rightarrow> [] | Some p \<Rightarrow> p))"
  by (auto simp: refreshPBs_def split: option.splits)

theorem refreshPBs_error_keeps_witness:
  "refreshPBs
     \<lparr>session = Some ''u1'', loading = False, rows = [], comps = [],
      pbs = [\<lparr>pb_user_id = ''u1'', pb_stroke = ''Free'', pb_distance_m = Fin 50,
              pb_time_sec = Fin (2795 / 100), pb_date = ''2024-02-01'', pb_meet = ''Spring Open''\<rparr>],
      draft = emptyWorkout ''2024-03-01'', cdraft = emptyComp ''2024-03-01'',
      editingId = None, ceditingId = None\<rparr>
     \<lparr>data = None, error = Some ''network down''\<rparr>
   = \<lparr>session = Some ''u1'', loading = False, rows = [], comps = [],
      pbs = [\<lparr>pb_user_id = ''u1'', pb_stroke = ''Free'', pb_distance_m = Fin 50,
              pb_time_sec = Fin (2795 / 100), pb_date = ''2024-02-01'', pb_meet = ''Spring Open''\<rparr>],
      draft = emptyWorkout ''2024-03-01'', cdraft = emptyComp ''2024-03-01'',
      editingId = None, ceditingId = None\<rparr>"
  using refreshPBs_error_keeps
    [of "\<lparr>data = None, error = Some ''network down''\<rparr>"
        "\<lparr>session = Some ''u1'', loading = False, rows = [], comps = [],
          pbs = [\<lparr>pb_user_id = ''u1'', pb_stroke = ''Free'', pb_distance_m = Fin 50,
                  pb_time_sec = Fin (2795 / 100), pb_date = ''2024-02-01'', pb_meet = ''Spring Open''\<rparr>],
          draft = emptyWorkout ''2024-03-01'', cdraft = emptyComp ''2024-03-01'',
          editingId = None, ceditingId = None\<rparr>"]
  by simp

end
